theory Spec2Isabelle
  imports
    Main
    "HOL-Library.Multiset"
    "HOL-Library.Product_Lexorder"
    "HOL-Library.List_Lexorder"
    "HOL-Library.Char_ord"
    "HOL-Library.Sublist"
begin

section \<open>Data model (mobile/app/lib/types.ts)\<close>

datatype GamePhase = Lobby | Customize | Rating | Scoreboard

text \<open>
  The \<^verbatim>\<open>Game\<close> row. The field \<^verbatim>\<open>id\<close> is called \<open>gid\<close> and \<^verbatim>\<open>round\<close> is called
  \<open>round_no\<close>, since \<open>id\<close> and \<open>round\<close> are HOL constants.
\<close>

record Game =
  gid :: string
  code :: string
  host_id :: string
  started :: bool
  round_no :: int
  phase :: GamePhase
  customize_ends_at :: "string option"
  current_player :: "string option"

text \<open>
  The \<^verbatim>\<open>Player\<close> row (\<^verbatim>\<open>id\<close> is \<open>pid\<close>). The optional \<^verbatim>\<open>created_at\<close> string is only ever
  read through \<^verbatim>\<open>Date.parse\<close>; the field holds the instant that \<^verbatim>\<open>Date.parse\<close> reads from it
  (milliseconds since the epoch), \<open>None\<close> when the field is absent or empty. Strings that
  \<^verbatim>\<open>Date.parse\<close> maps to NaN are outside the model.
\<close>

record Player =
  pid :: string
  game_id :: string
  user_id :: string
  user_email :: string
  score :: int
  ready :: bool
  created_at :: "int option"
  avatar_glb_url :: "string option"

section \<open>Turn order and quorum (mobile/app/screens/RatingScreen.tsx)\<close>

text \<open>
  \<^verbatim>\<open>Array.prototype.sort\<close> with a comparator. ECMAScript requires the sort to be stable; for a
  comparator that is a total preorder the result of every stable sort is the same list, so
  the model is the stable insertion sort: an element goes before the first element it does
  not compare greater than.
\<close>

fun insert_by :: "('a \<Rightarrow> 'a \<Rightarrow> int) \<Rightarrow> 'a \<Rightarrow> 'a list \<Rightarrow> 'a list" where
  "insert_by cmp x [] = [x]"
| "insert_by cmp x (y # ys) = (if cmp x y \<le> 0 then x # y # ys else y # insert_by cmp x ys)"

definition array_sort :: "('a \<Rightarrow> 'a \<Rightarrow> int) \<Rightarrow> 'a list \<Rightarrow> 'a list" where
  "array_sort cmp xs = foldr (insert_by cmp) xs []"

text \<open>\<^verbatim>\<open>left.created_at ? Date.parse(left.created_at) : 0\<close>\<close>

definition created :: "Player \<Rightarrow> int" where
  "created p = (case created_at p of None \<Rightarrow> 0 | Some t \<Rightarrow> t)"

text \<open>
  \<^verbatim>\<open>sortedPlayers = [...players].sort((left, right) => leftCreated - rightCreated)\<close>
\<close>

definition sortedPlayers :: "Player list \<Rightarrow> Player list" where
  "sortedPlayers players = array_sort (\<lambda>left right. created left - created right) players"

text \<open>\<^verbatim>\<open>expectedVotes = Math.max(sortedPlayers.length - 1, 0)\<close>\<close>

definition expectedVotes :: "Player list \<Rightarrow> int" where
  "expectedVotes players = max (int (length (sortedPlayers players)) - 1) 0"

text \<open>
  The order the specification describes: ascending in \<^verbatim>\<open>created_at\<close>, ties broken by the
  Player \<^verbatim>\<open>id\<close> compared as a string (lexicographic in the code units).
\<close>

definition spec_turn_order :: "Player list \<Rightarrow> Player list" where
  "spec_turn_order players = sort_key (\<lambda>p. (created p, pid p)) players"

section \<open>The Rating screen: state, effects and handlers (RatingScreen.tsx)\<close>

text \<open>
  A render of the component fixes the props and the state values that every closure created
  in that render reads (\<open>snapshot\<close>). The mutable \<^verbatim>\<open>useRef\<close> cells are shared by all closures
  (\<open>refs\<close>); \<open>countdownRef\<close> and \<open>votePollRef\<close> record whether an interval handle is held.
\<close>

record snapshot =
  user :: string
  game :: Game
  players :: "Player list"
  currentGame :: Game
  currentPlayerId :: "string option"
  hasVoted :: bool
  selectedStars :: nat
  voteCountdown :: nat
  currentTargetVoteCount :: int

record refs =
  advancingRef :: bool
  finishedRef :: bool
  countdownRef :: bool
  votePollRef :: bool

text \<open>
  Everything a handler does besides writing a ref is an effect, recorded in program order:
  state setters (applied at the next render), timer calls, requests to the store and to the
  API, bus messages, log lines and alerts.
\<close>

datatype timer = Countdown | VotePoll

datatype games_patch =
    PatchCurrentPlayer "string option"
  | PatchPhase GamePhase "string option"

datatype alert = NoteRequise | VoteEnregistre | Erreur

datatype effect =
    SetCurrentPlayerId "string option"
  | SetCurrentGamePlayer "string option"
  | SetHasVoted bool
  | SetVoteCountdown nat
  | SetCurrentTargetVoteCount int
  | SetVoteModalVisible bool
  | ClearInterval timer
  | SetInterval timer nat
  | GamesUpdate games_patch
  | ComputeScores string int
  | SelectStandings string
  | CountVotes string int string
  | SubmitVote string int string nat
  | OnShowScoreboard Game "Player list"
  | SendScoreboard string int "Player list"
  | ConsoleWarn string
  | Alert alert

text \<open>
  The synchronous run of a handler: the refs it leaves, the effects it issued, and whether
  it is suspended at an \<^verbatim>\<open>await\<close> (its continuation runs later, after other handlers may
  have run).
\<close>

datatype run = Run (run_refs: refs) (run_effects: "effect list") (run_pending: bool)

datatype 'a settled = Resolved 'a | Rejected

record finish_outcomes =
  computeScores_result :: "unit settled"
  standings_result :: "Player list option settled"
  phase_update_result :: "unit settled"

datatype count_reply = CountError | Count "int option"

definition PRESENTATION_DURATION_SECONDS :: nat where
  "PRESENTATION_DURATION_SECONDS = 20"

text \<open>A \<^verbatim>\<open>string | null\<close> used as a condition: null and the empty string are falsy.\<close>

definition truthy :: "string option \<Rightarrow> bool" where
  "truthy v = (case v of None \<Rightarrow> False | Some s \<Rightarrow> s \<noteq> [])"

text \<open>\<^verbatim>\<open>Array.prototype.findIndex\<close>: the first index that satisfies the test, or -1.\<close>

fun findIndex :: "('a \<Rightarrow> bool) \<Rightarrow> 'a list \<Rightarrow> int" where
  "findIndex P [] = -1"
| "findIndex P (x # xs) =
     (if P x then 0 else (let i = findIndex P xs in if i < 0 then -1 else i + 1))"

definition isHost :: "snapshot \<Rightarrow> bool" where
  "isHost s = (host_id (currentGame s) = user s)"

text \<open>
  \<^verbatim>\<open>currentPlayer = currentPlayerId ? sortedPlayers.find(p => p.id === currentPlayerId) : null\<close>
\<close>

definition currentPlayer :: "snapshot \<Rightarrow> Player option" where
  "currentPlayer s =
     (if truthy (currentPlayerId s)
      then find (\<lambda>p. Some (pid p) = currentPlayerId s) (sortedPlayers (players s))
      else None)"

text \<open>\<^verbatim>\<open>sortedPlayers.findIndex(player => player.id === currentPlayerId)\<close>\<close>

definition currentIndex :: "snapshot \<Rightarrow> int" where
  "currentIndex s = findIndex (\<lambda>p. Some (pid p) = currentPlayerId s) (sortedPlayers (players s))"

text \<open>\<^verbatim>\<open>isLastPlayer = currentIndex >= 0 && currentIndex === sortedPlayers.length - 1\<close>\<close>

definition isLastPlayer :: "snapshot \<Rightarrow> bool" where
  "isLastPlayer s =
     (currentIndex s \<ge> 0 \<and> currentIndex s = int (length (sortedPlayers (players s))) - 1)"

definition stopTimers :: "refs \<Rightarrow> run" where
  "stopTimers r =
     Run (r\<lparr>countdownRef := False, votePollRef := False\<rparr>)
         ((if countdownRef r then [ClearInterval Countdown] else [])
          @ (if votePollRef r then [ClearInterval VotePoll] else []))
         False"

definition resetCountdown :: "refs \<Rightarrow> run" where
  "resetCountdown r =
     Run (r\<lparr>countdownRef := True\<rparr>)
         ((if countdownRef r then [ClearInterval Countdown] else [])
          @ [SetVoteCountdown PRESENTATION_DURATION_SECONDS, SetInterval Countdown 1000])
         False"

text \<open>
  \<^verbatim>\<open>handleFinishRound\<close>, up to its first \<^verbatim>\<open>await\<close>: the guard, the flag, the timers, and the
  call of \<^verbatim>\<open>computeScores\<close>.
\<close>

definition handleFinishRound_begin :: "snapshot \<Rightarrow> refs \<Rightarrow> run" where
  "handleFinishRound_begin s r =
     (if finishedRef r then Run r [] False
      else (let st = stopTimers (r\<lparr>finishedRef := True\<rparr>)
            in Run (run_refs st)
                   (run_effects st @ [ComputeScores (gid (game s)) (round_no (game s))])
                   True))"

text \<open>
  The rest of \<^verbatim>\<open>handleFinishRound\<close>, from the settling of \<^verbatim>\<open>computeScores\<close> to the end. The
  three awaited calls settle as \<open>oc\<close> says; no ref is written between them.
\<close>

definition handleFinishRound_settle :: "snapshot \<Rightarrow> finish_outcomes \<Rightarrow> refs \<Rightarrow> run" where
  "handleFinishRound_settle s oc r =
     (let standings = (case standings_result oc of Resolved d \<Rightarrow> d | Rejected \<Rightarrow> None);
          finalStandings = (case standings of Some st \<Rightarrow> st | None \<Rightarrow> players s)
      in Run (r\<lparr>advancingRef := False\<rparr>)
           ((case computeScores_result oc of
               Rejected \<Rightarrow> [ConsoleWarn ''[Rating] handleFinishRound computeScores error'']
             | Resolved _ \<Rightarrow> [])
            @ [SelectStandings (gid (game s))]
            @ (case standings_result oc of
                 Rejected \<Rightarrow> [ConsoleWarn ''[Rating] handleFinishRound standings fetch error'']
               | Resolved _ \<Rightarrow> [])
            @ [GamesUpdate (PatchPhase Scoreboard None)]
            @ (case phase_update_result oc of
                 Rejected \<Rightarrow> [ConsoleWarn ''[Rating] handleFinishRound phase update error'']
               | Resolved _ \<Rightarrow> [])
            @ [OnShowScoreboard (currentGame s) finalStandings]
            @ (if isHost s
               then [SendScoreboard (gid (game s)) (round_no (game s)) finalStandings]
               else []))
           False)"

text \<open>A call of \<^verbatim>\<open>handleFinishRound\<close> that no other handler interleaves with.\<close>

definition handleFinishRound :: "snapshot \<Rightarrow> finish_outcomes \<Rightarrow> refs \<Rightarrow> run" where
  "handleFinishRound s oc r =
     (let b = handleFinishRound_begin s r
      in if run_pending b
         then (let e = handleFinishRound_settle s oc (run_refs b)
               in Run (run_refs e) (run_effects b @ run_effects e) False)
         else b)"

text \<open>
  \<^verbatim>\<open>advanceToNextPlayer\<close>. On the last presenter it awaits \<^verbatim>\<open>handleFinishRound\<close> and returns;
  otherwise nothing is awaited: the store write is started with \<^verbatim>\<open>void\<close> and the
  \<^verbatim>\<open>finally\<close> block clears the flag before the function returns.
\<close>

definition advanceToNextPlayer :: "snapshot \<Rightarrow> refs \<Rightarrow> run" where
  "advanceToNextPlayer s r =
     (if advancingRef r then Run r [] False
      else (let r1 = r\<lparr>advancingRef := True\<rparr>;
                sorted = sortedPlayers (players s);
                nextIndex = (if currentIndex s \<ge> 0 then currentIndex s + 1 else 0)
            in if nextIndex \<ge> int (length sorted) then handleFinishRound_begin s r1
               else (let nextPlayer = sorted ! nat nextIndex;
                         rc = resetCountdown r1
                     in Run ((run_refs rc)\<lparr>advancingRef := False\<rparr>)
                            ([SetCurrentPlayerId (Some (pid nextPlayer)),
                              SetCurrentGamePlayer (Some (pid nextPlayer))]
                             @ run_effects rc
                             @ [GamesUpdate (PatchCurrentPlayer (Some (pid nextPlayer)))])
                            False)))"

text \<open>
  The \<^verbatim>\<open>.then\<close> callback of the store write that \<^verbatim>\<open>advanceToNextPlayer\<close> started: it runs
  when the write settles and only logs.
\<close>

definition updateCurrentPlayer_then :: "bool \<Rightarrow> refs \<Rightarrow> run" where
  "updateCurrentPlayer_then err r =
     Run r (if err then [ConsoleWarn ''[Rating] Failed to update current player on backend'']
            else []) False"

text \<open>
  The body shared by the two triggers once their guard has passed:
  \<^verbatim>\<open>if (isLastPlayer) handleFinishRound() else advanceToNextPlayer()\<close>.
\<close>

definition finishOrAdvance :: "snapshot \<Rightarrow> refs \<Rightarrow> run" where
  "finishOrAdvance s r =
     (if isLastPlayer s then handleFinishRound_begin s r else advanceToNextPlayer s r)"

text \<open>
  The interval callback installed by \<^verbatim>\<open>resetCountdown\<close>, run on the countdown value
  \<open>previous\<close> that the state updater receives.
\<close>

definition countdownTick :: "snapshot \<Rightarrow> nat \<Rightarrow> refs \<Rightarrow> run" where
  "countdownTick s previous r =
     (if previous \<le> 1
      then (let a = (if truthy (currentPlayerId s) \<and> \<not> advancingRef r \<and> \<not> finishedRef r
                     then finishOrAdvance s r else Run r [] False)
            in Run (run_refs a)
                   ((if countdownRef r then [ClearInterval Countdown] else [])
                    @ run_effects a @ [SetVoteCountdown 0])
                   (run_pending a))
      else Run r [SetVoteCountdown (previous - 1)] False)"

text \<open>\<^verbatim>\<open>refreshVoteCountAndMaybeAdvance\<close>, up to the \<^verbatim>\<open>await\<close> of the count query.\<close>

definition refreshVoteCountAndMaybeAdvance_begin :: "snapshot \<Rightarrow> refs \<Rightarrow> run" where
  "refreshVoteCountAndMaybeAdvance_begin s r =
     (if \<not> truthy (currentPlayerId s) \<or> finishedRef r then Run r [] False
      else Run r [CountVotes (gid (game s)) (round_no (game s)) (the (currentPlayerId s))] True)"

text \<open>Its continuation, once the count query has settled with \<open>reply\<close>.\<close>

definition refreshVoteCountAndMaybeAdvance_settle :: "snapshot \<Rightarrow> count_reply \<Rightarrow> refs \<Rightarrow> run" where
  "refreshVoteCountAndMaybeAdvance_settle s reply r =
     (case reply of
        CountError \<Rightarrow> Run r [ConsoleWarn ''[Rating] vote count refresh failed''] False
      | Count c \<Rightarrow>
          (let total = (case c of None \<Rightarrow> 0 | Some n \<Rightarrow> n)
           in if total \<ge> expectedVotes (players s) \<and> \<not> advancingRef r \<and> \<not> finishedRef r
              then (let a = finishOrAdvance s r
                    in Run (run_refs a) (SetCurrentTargetVoteCount total # run_effects a)
                           (run_pending a))
              else Run r [SetCurrentTargetVoteCount total] False))"

text \<open>
  The effect on \<^verbatim>\<open>[expectedVotes]\<close>:
  \<^verbatim>\<open>if (expectedVotes === 0 && !advancingRef.current) advanceToNextPlayer()\<close>.
\<close>

definition soloFastPath :: "snapshot \<Rightarrow> refs \<Rightarrow> run" where
  "soloFastPath s r =
     (if expectedVotes (players s) = 0 \<and> \<not> advancingRef r then advanceToNextPlayer s r
      else Run r [] False)"

text \<open>\<^verbatim>\<open>submitCurrentVote\<close>, up to the \<^verbatim>\<open>await\<close> of \<^verbatim>\<open>submitVote\<close>, and its continuation.\<close>

definition submitCurrentVote_begin :: "snapshot \<Rightarrow> refs \<Rightarrow> run" where
  "submitCurrentVote_begin s r =
     (case currentPlayer s of
        None \<Rightarrow> Run r [] False
      | Some cp \<Rightarrow>
          if selectedStars s = 0 \<or> finishedRef r then Run r [] False
          else Run r [SetHasVoted True,
                      SubmitVote (gid (game s)) (round_no (game s)) (pid cp) (selectedStars s)]
                   True)"

definition submitCurrentVote_settle :: "snapshot \<Rightarrow> unit settled \<Rightarrow> refs \<Rightarrow> run" where
  "submitCurrentVote_settle s res r =
     (case res of
        Resolved _ \<Rightarrow> refreshVoteCountAndMaybeAdvance_begin s r
      | Rejected \<Rightarrow> Run r [SetHasVoted False, ConsoleWarn ''[Rating] submit vote failed''] False)"

text \<open>
  The earlier version of \<^verbatim>\<open>submitCurrentVote\<close> kept in the same file, which reports through
  \<^verbatim>\<open>Alert.alert\<close> (only the alert's title is recorded).
\<close>

definition submitCurrentVote_old_begin :: "snapshot \<Rightarrow> refs \<Rightarrow> run" where
  "submitCurrentVote_old_begin s r =
     (case currentPlayer s of
        None \<Rightarrow> Run r [Alert NoteRequise] False
      | Some cp \<Rightarrow>
          if selectedStars s = 0 then Run r [Alert NoteRequise] False
          else Run r [SetHasVoted True,
                      SubmitVote (gid (game s)) (round_no (game s)) (pid cp) (selectedStars s)]
                   True)"

definition submitCurrentVote_old_settle :: "snapshot \<Rightarrow> unit settled \<Rightarrow> refs \<Rightarrow> run" where
  "submitCurrentVote_old_settle s res r =
     (case res of
        Resolved _ \<Rightarrow> Run r [Alert VoteEnregistre, SetVoteModalVisible False] False
      | Rejected \<Rightarrow> Run r [SetHasVoted False, Alert Erreur] False)"

text \<open>The next render: the state setters among the effects, applied in order.\<close>

fun apply_setter :: "snapshot \<Rightarrow> effect \<Rightarrow> snapshot" where
  "apply_setter s (SetCurrentPlayerId p) = s\<lparr>currentPlayerId := p\<rparr>"
| "apply_setter s (SetCurrentGamePlayer p) =
     s\<lparr>currentGame := (currentGame s)\<lparr>current_player := p\<rparr>\<rparr>"
| "apply_setter s (SetHasVoted b) = s\<lparr>hasVoted := b\<rparr>"
| "apply_setter s (SetVoteCountdown n) = s\<lparr>voteCountdown := n\<rparr>"
| "apply_setter s (SetCurrentTargetVoteCount n) = s\<lparr>currentTargetVoteCount := n\<rparr>"
| "apply_setter s _ = s"

definition rerender :: "snapshot \<Rightarrow> effect list \<Rightarrow> snapshot" where
  "rerender s effs = foldl apply_setter s effs"

text \<open>The Game row of the Shared Game Store after a write that the store applies.\<close>

fun apply_patch :: "games_patch \<Rightarrow> Game \<Rightarrow> Game" where
  "apply_patch (PatchCurrentPlayer p) g = g\<lparr>current_player := p\<rparr>"
| "apply_patch (PatchPhase ph p) g = g\<lparr>phase := ph, current_player := p\<rparr>"

text \<open>What a trace of effects contains.\<close>

fun advance_target :: "effect \<Rightarrow> string option option" where
  "advance_target (GamesUpdate (PatchCurrentPlayer p)) = Some p"
| "advance_target _ = None"

definition advance_writes :: "effect list \<Rightarrow> string option list" where
  "advance_writes effs = List.map_filter advance_target effs"

fun is_scoring :: "effect \<Rightarrow> bool" where
  "is_scoring (ComputeScores _ _) = True"
| "is_scoring _ = False"

fun is_phase_flip :: "effect \<Rightarrow> bool" where
  "is_phase_flip (GamesUpdate (PatchPhase Scoreboard None)) = True"
| "is_phase_flip _ = False"

fun is_broadcast :: "effect \<Rightarrow> bool" where
  "is_broadcast (SendScoreboard _ _ _) = True"
| "is_broadcast _ = False"

fun is_alert :: "effect \<Rightarrow> bool" where
  "is_alert (Alert _) = True"
| "is_alert _ = False"

fun is_presenter_change :: "effect \<Rightarrow> bool" where
  "is_presenter_change (SetCurrentPlayerId _) = True"
| "is_presenter_change (SetCurrentGamePlayer _) = True"
| "is_presenter_change (GamesUpdate (PatchCurrentPlayer _)) = True"
| "is_presenter_change _ = False"

definition count_of :: "(effect \<Rightarrow> bool) \<Rightarrow> effect list \<Rightarrow> nat" where
  "count_of P effs = length (filter P effs)"

text \<open>The Game row after the store has applied the writes of a trace, in order.\<close>

fun store_write :: "Game \<Rightarrow> effect \<Rightarrow> Game" where
  "store_write g (GamesUpdate p) = apply_patch p g"
| "store_write g _ = g"

definition store_after :: "Game \<Rightarrow> effect list \<Rightarrow> Game" where
  "store_after g effs = foldl store_write g effs"

text \<open>The id of the player that follows the current presenter in the turn order.\<close>

definition next_id :: "snapshot \<Rightarrow> string" where
  "next_id s = pid (sortedPlayers (players s) ! nat (currentIndex s + 1))"

text \<open>
  The round-finish path called twice in succession: the second call after the first has
  completed, and the second call while the first is suspended at its first \<^verbatim>\<open>await\<close>.
\<close>

definition finish_twice :: "snapshot \<Rightarrow> finish_outcomes \<Rightarrow> finish_outcomes \<Rightarrow> refs \<Rightarrow> run" where
  "finish_twice s oc oc' r =
     (let f1 = handleFinishRound s oc r;
          f2 = handleFinishRound s oc' (run_refs f1)
      in Run (run_refs f2) (run_effects f1 @ run_effects f2) False)"

definition finish_reentered :: "snapshot \<Rightarrow> finish_outcomes \<Rightarrow> finish_outcomes \<Rightarrow> refs \<Rightarrow> run" where
  "finish_reentered s oc oc' r =
     (let b = handleFinishRound_begin s r;
          f2 = handleFinishRound s oc' (run_refs b);
          e = (if run_pending b then handleFinishRound_settle s oc (run_refs f2)
               else Run (run_refs f2) [] False)
      in Run (run_refs e) (run_effects b @ run_effects f2 @ run_effects e) False)"

text \<open>The two triggers of a turn's end, fired back to back on one render, in both orders.\<close>

definition timer_then_poll :: "snapshot \<Rightarrow> nat \<Rightarrow> int \<Rightarrow> refs \<Rightarrow> run" where
  "timer_then_poll s previous votes r =
     (let t = countdownTick s previous r;
          p = refreshVoteCountAndMaybeAdvance_settle s (Count (Some votes)) (run_refs t)
      in Run (run_refs p) (run_effects t @ run_effects p) (run_pending t \<or> run_pending p))"

definition poll_then_timer :: "snapshot \<Rightarrow> nat \<Rightarrow> int \<Rightarrow> refs \<Rightarrow> run" where
  "poll_then_timer s previous votes r =
     (let p = refreshVoteCountAndMaybeAdvance_settle s (Count (Some votes)) r;
          t = countdownTick s previous (run_refs p)
      in Run (run_refs t) (run_effects p @ run_effects t) (run_pending p \<or> run_pending t))"

section \<open>Peer sessions (mobile/app/hooks/useLiveStream.ts, lib/streaming/peerConnection.ts)\<close>

datatype PeerRole = Host | Viewer

text \<open>
  A \<^verbatim>\<open>PeerConnectionManager\<close> object. \<open>peer\<close> tells whether it holds an open
  \<^verbatim>\<open>RTCPeerConnection\<close>; \<open>counterpart\<close> is the remote user that its signalling handler addresses
  (the \<^verbatim>\<open>fromUserId\<close> of the offer, or the stream owner), fixed at construction.
\<close>

record PeerConnectionManager =
  role :: PeerRole
  userId :: string
  counterpart :: "string option"
  peer :: bool
  localTrack :: bool
  trackListener :: bool
  remoteStreamOfPeer :: bool


text \<open>
  The state of the hook: every manager constructed so far, by address (its index in
  \<open>managers\<close>), the refs, and the React state.
\<close>

record live_stream =
  managers :: "PeerConnectionManager list"
  peerRef :: "nat option"
  peerRoleRef :: "PeerRole option"
  targetRef :: "string option"
  localStreamRef :: bool
  isPublishing :: bool
  streamOwnerId :: "string option"
  remoteStream :: bool





text \<open>\<^verbatim>\<open>close\<close>: closes and drops the connection, drops the remote stream.\<close>

definition close :: "PeerConnectionManager \<Rightarrow> PeerConnectionManager" where
  "close m = m\<lparr>peer := False, remoteStreamOfPeer := False\<rparr>"

text \<open>
  \<^verbatim>\<open>cleanupPeer\<close>: \<^verbatim>\<open>peerRef.current?.close(); peerRef.current = null; ...\<close>
\<close>

definition cleanupPeer :: "live_stream \<Rightarrow> live_stream" where
  "cleanupPeer st =
     (let ms = (case peerRef st of
                  None \<Rightarrow> managers st
                | Some i \<Rightarrow> (managers st)[i := close (managers st ! i)])
      in st\<lparr>managers := ms, peerRef := None, peerRoleRef := None, targetRef := None\<rparr>)"



text \<open>
  The cleanup of the effect that registers the bus handlers. Its dependencies are
  \<^verbatim>\<open>[cleanupPeer, isPublishing, user.id]\<close>, so it runs at unmount and at every render in which
  \<^verbatim>\<open>isPublishing\<close> has changed:
  \<^verbatim>\<open>cleanupPeer(); if (localStreamRef.current) { ...track.stop(); localStreamRef.current = null }\<close>
\<close>

definition handlerEffectCleanup :: "live_stream \<Rightarrow> live_stream" where
  "handlerEffectCleanup st = (cleanupPeer st)\<lparr>localStreamRef := False\<rparr>"

text \<open>
  The render that follows a handler: \<open>was\<close> is the value of \<^verbatim>\<open>isPublishing\<close> before the handler
  ran; when the handler has changed it, the handler effect is run again, its cleanup first.
\<close>

definition commit :: "bool \<Rightarrow> live_stream \<Rightarrow> live_stream" where
  "commit was st = (if isPublishing st = was then st else handlerEffectCleanup st)"





definition stopPublishing :: "live_stream \<Rightarrow> live_stream" where
  "stopPublishing st =
     commit (isPublishing st)
       (if \<not> isPublishing st then st
        else cleanupPeer (st\<lparr>localStreamRef := False, isPublishing := False\<rparr>))"



section \<open>Avatar sources (lib/avatarSources)\<close>

text \<open>
  JavaScript values as \<^verbatim>\<open>extractAvatarSource\<close> can tell them apart. An object is a reference
  into a heap that gives, for each address, the properties the \<^verbatim>\<open>in\<close> operator finds and
  their values; references may form cycles, and an array is an object. Every number is
  treated alike by the function (it is not a string and not an object); integers stand for
  them. Functions, symbols and bigints, for which the function returns null without
  recursing, are not represented. A string is a list of code units, here restricted to the
  range of \<open>char\<close>.
\<close>

datatype jsval =
    JUndefined
  | JNull
  | JBoolean bool
  | JNumber int
  | JString string
  | JObject nat

type_synonym heap = "nat \<Rightarrow> (string \<times> jsval) list"

definition MODEL_SOURCE_KEYS :: "string list" where
  "MODEL_SOURCE_KEYS =
     [''glbUrl'', ''glb'', ''blobUrl'', ''modelUrl'', ''model'', ''url'', ''signedUrl'',
      ''signed_url'', ''href'', ''value'', ''src'', ''source'', ''dataUrl'', ''data_url'']"

definition MAX_NESTING_DEPTH :: nat where
  "MAX_NESTING_DEPTH = 4"

text \<open>
  The white space and line terminators that \<^verbatim>\<open>String.prototype.trim\<close> removes, among the
  code units below 256: TAB, LF, VT, FF, CR, SPACE and NBSP.
\<close>

definition is_whitespace :: "char \<Rightarrow> bool" where
  "is_whitespace c = ((of_char c :: nat) \<in> {9, 10, 11, 12, 13, 32, 160})"

definition trim :: "string \<Rightarrow> string" where
  "trim s = rev (dropWhile is_whitespace (rev (dropWhile is_whitespace s)))"

definition startsWith :: "string \<Rightarrow> string \<Rightarrow> bool" where
  "startsWith s p = prefix p s"

text \<open>
  \<^verbatim>\<open>/^data:image\//i\<close>: the first eleven code units are \<^verbatim>\<open>data:image/\<close> up to the case of
  the ASCII letters.
\<close>

definition ascii_lower :: "char \<Rightarrow> char" where
  "ascii_lower c =
     (if 65 \<le> (of_char c :: nat) \<and> (of_char c :: nat) \<le> 90 then char_of (of_char c + 32 :: nat)
      else c)"

definition is_data_image :: "string \<Rightarrow> bool" where
  "is_data_image s = (map ascii_lower (take 11 s) = ''data:image/'')"

text \<open>\<^verbatim>\<open>BASE64_MODEL_PATTERN = /^[A-Za-z0-9+/=]+$/\<close>\<close>

definition is_base64_char :: "char \<Rightarrow> bool" where
  "is_base64_char c =
     (let n = (of_char c :: nat)
      in (65 \<le> n \<and> n \<le> 90) \<or> (97 \<le> n \<and> n \<le> 122) \<or> (48 \<le> n \<and> n \<le> 57)
         \<or> n = 43 \<or> n = 47 \<or> n = 61)"

definition BASE64_MODEL_PATTERN :: "string \<Rightarrow> bool" where
  "BASE64_MODEL_PATTERN s = (s \<noteq> [] \<and> list_all is_base64_char s)"

definition normalizeModelCandidate :: "string \<Rightarrow> string option" where
  "normalizeModelCandidate v =
     (let trimmed = trim v
      in if trimmed = [] then None
         else if startsWith trimmed ''http://'' \<or> startsWith trimmed ''https://''
           then Some trimmed
         else if startsWith trimmed ''data:''
           then (if is_data_image trimmed then None else Some trimmed)
         else if length trimmed > 100 \<and> BASE64_MODEL_PATTERN trimmed
                 \<and> CHR '' '' \<notin> set trimmed
           then Some (''data:model/gltf-binary;base64,'' @ trimmed)
         else None)"

text \<open>\<^verbatim>\<open>!payload\<close>: the falsy values.\<close>

fun falsy :: "jsval \<Rightarrow> bool" where
  "falsy JUndefined = True"
| "falsy JNull = True"
| "falsy (JBoolean b) = (\<not> b)"
| "falsy (JNumber n) = (n = 0)"
| "falsy (JString s) = (s = [])"
| "falsy (JObject a) = False"

text \<open>
  The \<^verbatim>\<open>for (const key of MODEL_SOURCE_KEYS)\<close> loop: \<open>f key\<close> is the candidate of a key
  (\<open>None\<close> when the key is not in the record); the first truthy candidate is returned.
\<close>

fun first_candidate :: "(string \<Rightarrow> string option) \<Rightarrow> string list \<Rightarrow> string option" where
  "first_candidate f [] = None"
| "first_candidate f (key # keys) =
     (case f key of
        None \<Rightarrow> first_candidate f keys
      | Some c \<Rightarrow> if c \<noteq> [] then Some c else first_candidate f keys)"

function extractAvatarSource :: "heap \<Rightarrow> jsval \<Rightarrow> nat \<Rightarrow> string option" where
  "extractAvatarSource h payload depth =
     (if falsy payload \<or> depth > MAX_NESTING_DEPTH then None
      else (case payload of
              JString s \<Rightarrow> normalizeModelCandidate s
            | JObject a \<Rightarrow>
                first_candidate
                  (\<lambda>key. case map_of (h a) key of
                            None \<Rightarrow> None
                          | Some v \<Rightarrow> extractAvatarSource h v (depth + 1))
                  MODEL_SOURCE_KEYS
            | _ \<Rightarrow> None))"
  by pat_completeness auto
termination
  by (relation "measure (\<lambda>(h, payload, depth). MAX_NESTING_DEPTH + 1 - depth)") auto

section \<open>Example data: a game of three players who joined one second apart\<close>

definition demo_player :: "string \<Rightarrow> string \<Rightarrow> int \<Rightarrow> Player" where
  "demo_player i u t =
     \<lparr>pid = i, game_id = ''g1'', user_id = u, user_email = u @ ''@example.com'', score = 0,
      ready = True, created_at = Some t, avatar_glb_url = None\<rparr>"

definition demo_game :: "string option \<Rightarrow> Game" where
  "demo_game cur =
     \<lparr>gid = ''g1'', code = ''ABCD'', host_id = ''u0'', started = True, round_no = 1,
      phase = Rating, customize_ends_at = None, current_player = cur\<rparr>"

definition demo_players :: "Player list" where
  "demo_players =
     [demo_player ''p0'' ''u0'' 0, demo_player ''p1'' ''u1'' 1000, demo_player ''p2'' ''u2'' 2000]"

definition demo_snapshot :: "Player list \<Rightarrow> string option \<Rightarrow> snapshot" where
  "demo_snapshot ps cur =
     \<lparr>user = ''u0'', game = demo_game cur, players = ps, currentGame = demo_game cur,
      currentPlayerId = cur, hasVoted = False, selectedStars = 4, voteCountdown = 7,
      currentTargetVoteCount = 0\<rparr>"

definition presenting_refs :: refs where
  "presenting_refs =
     \<lparr>advancingRef = False, finishedRef = False, countdownRef = True, votePollRef = True\<rparr>"

definition all_resolved :: finish_outcomes where
  "all_resolved =
     \<lparr>computeScores_result = Resolved (), standings_result = Resolved None,
      phase_update_result = Resolved ()\<rparr>"

definition all_rejected :: finish_outcomes where
  "all_rejected =
     \<lparr>computeScores_result = Rejected, standings_result = Rejected,
      phase_update_result = Rejected\<rparr>"

section \<open>Facts about the sort\<close>

lemma insert_by_insort_key:
  "insert_by (\<lambda>l r. f l - f r) x xs = insort_key f x xs"
  by (induction xs) auto

lemma array_sort_sort_key:
  "array_sort (\<lambda>l r. f l - f r) xs = sort_key (f :: 'a \<Rightarrow> int) xs"
  unfolding array_sort_def sort_key_def
  by (induction xs) (simp_all add: insert_by_insort_key)

lemma sortedPlayers_sort_key: "sortedPlayers ps = sort_key created ps"
  unfolding sortedPlayers_def by (rule array_sort_sort_key)

lemma length_sortedPlayers: "length (sortedPlayers ps) = length ps"
  by (simp add: sortedPlayers_sort_key)

lemma mset_sortedPlayers: "mset (sortedPlayers ps) = mset ps"
  by (simp add: sortedPlayers_sort_key)

lemma sorted_sortedPlayers: "sorted (map created (sortedPlayers ps))"
  by (simp add: sortedPlayers_sort_key)

lemma sorted_fst_of_pairs:
  "sorted (map (\<lambda>p. (f p :: int, g p :: string)) xs) \<Longrightarrow> sorted (map f xs)"
  by (induction xs) (auto simp: less_eq_prod_def)

lemma spec_turn_order_sorted_created: "sorted (map created (spec_turn_order ps))"
proof -
  have "sorted (map (\<lambda>p. (created p, pid p)) (spec_turn_order ps))"
    unfolding spec_turn_order_def by simp
  then show ?thesis by (rule sorted_fst_of_pairs)
qed

lemma sortedPlayers_spec_when_distinct:
  assumes "distinct (map created ps)"
  shows "sortedPlayers ps = spec_turn_order ps"
proof -
  have m: "mset ps = mset (spec_turn_order ps)"
    by (simp add: spec_turn_order_def)
  have i: "inj_on created (set ps)"
    using assms by (simp add: distinct_map)
  show ?thesis
    unfolding sortedPlayers_sort_key
    by (rule sort_key_inj_key_eq [OF m i spec_turn_order_sorted_created])
qed

section \<open>Facts about the handlers\<close>

lemma findIndex_bounds: "-1 \<le> findIndex P xs \<and> findIndex P xs < int (length xs)"
  by (induction xs) (auto simp: Let_def)

lemma findIndex_last:
  assumes "distinct (map f xs)" "xs \<noteq> []"
  shows "findIndex (\<lambda>p. Some (f p) = Some (f (last xs))) xs = int (length xs) - 1"
  using assms
proof (induction xs)
  case Nil
  then show ?case by simp
next
  case (Cons x xs)
  show ?case
  proof (cases "xs = []")
    case True
    then show ?thesis by simp
  next
    case False
    with Cons.prems have "f x \<noteq> f (last xs)" by auto
    moreover have "findIndex (\<lambda>p. Some (f p) = Some (f (last xs))) xs = int (length xs) - 1"
      using Cons False by simp
    ultimately show ?thesis using False by (simp add: Let_def)
  qed
qed

lemma begin_when_finished: "finishedRef r \<Longrightarrow> handleFinishRound_begin s r = Run r [] False"
  by (simp add: handleFinishRound_begin_def)

lemma begin_when_fresh:
  "\<not> finishedRef r \<Longrightarrow>
   handleFinishRound_begin s r =
     Run (r\<lparr>finishedRef := True, countdownRef := False, votePollRef := False\<rparr>)
         ((if countdownRef r then [ClearInterval Countdown] else [])
          @ (if votePollRef r then [ClearInterval VotePoll] else [])
          @ [ComputeScores (gid (game s)) (round_no (game s))])
         True"
  by (simp add: handleFinishRound_begin_def stopTimers_def Let_def)

lemma begin_finished_after: "finishedRef (run_refs (handleFinishRound_begin s r))"
  by (cases "finishedRef r") (simp_all add: begin_when_finished begin_when_fresh)

lemma settle_refs: "run_refs (handleFinishRound_settle s oc r) = r\<lparr>advancingRef := False\<rparr>"
  by (simp add: handleFinishRound_settle_def Let_def)

lemma advance_when_advancing: "advancingRef r \<Longrightarrow> advanceToNextPlayer s r = Run r [] False"
  by (simp add: advanceToNextPlayer_def)

lemma advance_with_successor:
  assumes "\<not> advancingRef r" "0 \<le> currentIndex s"
    "currentIndex s + 1 < int (length (sortedPlayers (players s)))"
  shows "advanceToNextPlayer s r =
     Run (r\<lparr>countdownRef := True\<rparr>)
         ([SetCurrentPlayerId (Some (next_id s)), SetCurrentGamePlayer (Some (next_id s))]
          @ (if countdownRef r then [ClearInterval Countdown] else [])
          @ [SetVoteCountdown PRESENTATION_DURATION_SECONDS, SetInterval Countdown 1000,
             GamesUpdate (PatchCurrentPlayer (Some (next_id s)))])
         False"
  using assms
  by (simp add: advanceToNextPlayer_def resetCountdown_def Let_def next_id_def)

section \<open>Claims about the quorum\<close>

text \<open>
  C4. For a game with N players the vote quorum of the Rating screen is
  \<open>max (N - 1) 0\<close>: it is \<open>N - 1\<close> as soon as there is a player and \<open>0\<close> for the empty game.
\<close>

theorem C4_expectedVotes:
  "expectedVotes ps = max (int (length ps) - 1) 0
   \<and> expectedVotes ps = (if ps = [] then 0 else int (length ps) - 1)"
  by (cases ps) (simp_all add: expectedVotes_def length_sortedPlayers)

theorem C4_expectedVotes_witness:
  "expectedVotes demo_players = 2 \<and> expectedVotes [] = 0 \<and> expectedVotes [demo_player ''p0'' ''u0'' 0] = 0"
  using C4_expectedVotes [of demo_players] C4_expectedVotes [of "[]"]
    C4_expectedVotes [of "[demo_player ''p0'' ''u0'' 0]"]
  by (simp add: demo_players_def)

section \<open>Claims about the round-finish path\<close>

lemma handleFinishRound_again:
  "finishedRef r \<Longrightarrow> handleFinishRound s oc r = Run r [] False"
  by (simp add: handleFinishRound_def begin_when_finished)

lemma handleFinishRound_finished_after: "finishedRef (run_refs (handleFinishRound s oc r))"
  by (cases "finishedRef r")
     (simp_all add: handleFinishRound_def begin_when_finished begin_when_fresh settle_refs Let_def)

lemma settle_counts:
  "count_of is_scoring (run_effects (handleFinishRound_settle s oc r)) = 0
   \<and> count_of is_phase_flip (run_effects (handleFinishRound_settle s oc r)) = 1
   \<and> count_of is_broadcast (run_effects (handleFinishRound_settle s oc r)) = (if isHost s then 1 else 0)
   \<and> count_of is_presenter_change (run_effects (handleFinishRound_settle s oc r)) = 0"
  by (simp add: handleFinishRound_settle_def count_of_def Let_def split: settled.splits)

lemma begin_counts:
  "count_of is_scoring (run_effects (handleFinishRound_begin s r)) = (if finishedRef r then 0 else 1)
   \<and> count_of is_phase_flip (run_effects (handleFinishRound_begin s r)) = 0
   \<and> count_of is_broadcast (run_effects (handleFinishRound_begin s r)) = 0
   \<and> count_of is_presenter_change (run_effects (handleFinishRound_begin s r)) = 0"
  by (cases "finishedRef r") (simp_all add: begin_when_finished begin_when_fresh count_of_def)

lemma count_of_append: "count_of P (xs @ ys) = count_of P xs + count_of P ys"
  by (simp add: count_of_def)

lemma count_of_Nil: "count_of P [] = 0"
  by (simp add: count_of_def)

lemma handleFinishRound_counts:
  "count_of is_scoring (run_effects (handleFinishRound s oc r)) = (if finishedRef r then 0 else 1)
   \<and> count_of is_phase_flip (run_effects (handleFinishRound s oc r)) = (if finishedRef r then 0 else 1)
   \<and> count_of is_broadcast (run_effects (handleFinishRound s oc r))
       = (if finishedRef r \<or> \<not> isHost s then 0 else 1)"
proof (cases "finishedRef r")
  case True
  then show ?thesis by (simp add: handleFinishRound_again count_of_Nil)
next
  case False
  then have "run_effects (handleFinishRound s oc r)
      = run_effects (handleFinishRound_begin s r)
        @ run_effects (handleFinishRound_settle s oc (run_refs (handleFinishRound_begin s r)))"
    by (simp add: handleFinishRound_def begin_when_fresh Let_def)
  then show ?thesis using False
    by (simp add: count_of_append begin_counts settle_counts)
qed

text \<open>
  C2. Invoking the round-finish path (\<^verbatim>\<open>handleFinishRound\<close>) twice in succession performs the
  scoring computation, the phase flip of the Game row to \<^verbatim>\<open>scoreboard\<close> and the standings
  broadcast at most once. The \<^verbatim>\<open>finished\<close> flag is set in the synchronous prefix, before
  the first awaited call, and a second invocation while it is set returns at once with no
  effect, whether it comes while the first call is suspended or after the first call has
  completed.
\<close>

theorem C2_finish_single_shot:
  "finishedRef (run_refs (handleFinishRound_begin s r))
   \<and> handleFinishRound_begin s (run_refs (handleFinishRound_begin s r))
       = Run (run_refs (handleFinishRound_begin s r)) [] False
   \<and> handleFinishRound s oc' (run_refs (handleFinishRound s oc r))
       = Run (run_refs (handleFinishRound s oc r)) [] False
   \<and> count_of is_scoring (run_effects (finish_twice s oc oc' r)) \<le> 1
   \<and> count_of is_phase_flip (run_effects (finish_twice s oc oc' r)) \<le> 1
   \<and> count_of is_broadcast (run_effects (finish_twice s oc oc' r)) \<le> 1
   \<and> count_of is_scoring (run_effects (finish_reentered s oc oc' r)) \<le> 1
   \<and> count_of is_phase_flip (run_effects (finish_reentered s oc oc' r)) \<le> 1
   \<and> count_of is_broadcast (run_effects (finish_reentered s oc oc' r)) \<le> 1"
proof -
  let ?b = "handleFinishRound_begin s r"
  let ?f = "handleFinishRound s oc r"
  have fb: "finishedRef (run_refs ?b)" by (rule begin_finished_after)
  have ff: "finishedRef (run_refs ?f)" by (rule handleFinishRound_finished_after)
  have b2: "handleFinishRound_begin s (run_refs ?b) = Run (run_refs ?b) [] False"
    using fb by (rule begin_when_finished)
  have f2: "handleFinishRound s oc' (run_refs ?f) = Run (run_refs ?f) [] False"
    using ff by (rule handleFinishRound_again)
  have fb2: "handleFinishRound s oc' (run_refs ?b) = Run (run_refs ?b) [] False"
    using fb by (rule handleFinishRound_again)
  have tw: "run_effects (finish_twice s oc oc' r) = run_effects ?f"
    by (simp add: finish_twice_def f2 Let_def)
  have re: "run_effects (finish_reentered s oc oc' r)
      = run_effects ?b @ (if run_pending ?b
           then run_effects (handleFinishRound_settle s oc (run_refs ?b)) else [])"
    by (simp add: finish_reentered_def fb2 Let_def)
  have c1: "count_of is_scoring (run_effects (finish_twice s oc oc' r)) \<le> 1"
    and c2: "count_of is_phase_flip (run_effects (finish_twice s oc oc' r)) \<le> 1"
    and c3: "count_of is_broadcast (run_effects (finish_twice s oc oc' r)) \<le> 1"
    unfolding tw by (simp_all add: handleFinishRound_counts)
  have c4: "count_of is_scoring (run_effects (finish_reentered s oc oc' r)) \<le> 1"
    and c5: "count_of is_phase_flip (run_effects (finish_reentered s oc oc' r)) \<le> 1"
    and c6: "count_of is_broadcast (run_effects (finish_reentered s oc oc' r)) \<le> 1"
    unfolding re
    by (simp_all add: count_of_append count_of_Nil begin_counts settle_counts)
  show ?thesis using fb b2 f2 c1 c2 c3 c4 c5 c6 by simp
qed

theorem C2_finish_single_shot_witness:
  "count_of is_scoring (run_effects
      (finish_twice (demo_snapshot demo_players (Some ''p2'')) all_resolved all_resolved
         presenting_refs)) = 1
   \<and> count_of is_phase_flip (run_effects
      (finish_reentered (demo_snapshot demo_players (Some ''p2'')) all_rejected all_resolved
         presenting_refs)) = 1"
proof -
  have a: "count_of is_scoring (run_effects
      (finish_twice (demo_snapshot demo_players (Some ''p2'')) all_resolved all_resolved
         presenting_refs)) = 1" by code_simp
  have b: "count_of is_phase_flip (run_effects
      (finish_reentered (demo_snapshot demo_players (Some ''p2'')) all_rejected all_resolved
         presenting_refs)) = 1" by code_simp
  note C2_finish_single_shot [of "demo_snapshot demo_players (Some ''p2'')" presenting_refs
      all_resolved all_resolved]
  with a b show ?thesis by simp
qed

section \<open>Claims about the last presenter\<close>

lemma distinct_pid_sortedPlayers:
  "distinct (map pid (sortedPlayers ps)) = distinct (map pid ps)"
proof -
  have "mset (map pid (sortedPlayers ps)) = mset (map pid ps)"
    by (simp add: mset_sortedPlayers)
  then show ?thesis by (rule mset_eq_imp_distinct_iff)
qed

lemma sortedPlayers_Nil_iff: "sortedPlayers ps = [] \<longleftrightarrow> ps = []"
  using length_sortedPlayers [of ps] by (metis length_0_conv)

lemma isLastPlayer_of_last:
  assumes "distinct (map pid (players s))" "players s \<noteq> []"
    "currentPlayerId s = Some (pid (last (sortedPlayers (players s))))"
  shows "isLastPlayer s"
proof -
  let ?xs = "sortedPlayers (players s)"
  have d: "distinct (map pid ?xs)" using assms(1) by (simp add: distinct_pid_sortedPlayers)
  have n: "?xs \<noteq> []" using assms(2) by (simp add: sortedPlayers_Nil_iff)
  have "currentIndex s = int (length ?xs) - 1"
    unfolding currentIndex_def assms(3) by (rule findIndex_last [OF d n])
  moreover have "0 < length ?xs" using n by simp
  ultimately show ?thesis by (simp add: isLastPlayer_def)
qed

lemma finishOrAdvance_last:
  assumes "isLastPlayer s" "\<not> finishedRef r"
  shows "finishOrAdvance s r =
     Run (r\<lparr>finishedRef := True, countdownRef := False, votePollRef := False\<rparr>)
         ((if countdownRef r then [ClearInterval Countdown] else [])
          @ (if votePollRef r then [ClearInterval VotePoll] else [])
          @ [ComputeScores (gid (game s)) (round_no (game s))])
         True"
  using assms by (simp add: finishOrAdvance_def begin_when_fresh)

lemma countdownTick_last:
  assumes "isLastPlayer s" "truthy (currentPlayerId s)" "\<not> advancingRef r" "\<not> finishedRef r"
    "previous \<le> 1"
  shows "countdownTick s previous r =
     Run (r\<lparr>finishedRef := True, countdownRef := False, votePollRef := False\<rparr>)
         ((if countdownRef r then [ClearInterval Countdown] else [])
          @ (if countdownRef r then [ClearInterval Countdown] else [])
          @ (if votePollRef r then [ClearInterval VotePoll] else [])
          @ [ComputeScores (gid (game s)) (round_no (game s)), SetVoteCountdown 0])
         True"
  using assms by (simp add: countdownTick_def finishOrAdvance_last Let_def)

lemma poll_last:
  assumes "isLastPlayer s" "\<not> advancingRef r" "\<not> finishedRef r"
    "expectedVotes (players s) \<le> votes"
  shows "refreshVoteCountAndMaybeAdvance_settle s (Count (Some votes)) r =
     Run (r\<lparr>finishedRef := True, countdownRef := False, votePollRef := False\<rparr>)
         (SetCurrentTargetVoteCount votes
          # (if countdownRef r then [ClearInterval Countdown] else [])
          @ (if votePollRef r then [ClearInterval VotePoll] else [])
          @ [ComputeScores (gid (game s)) (round_no (game s))])
         True"
  using assms by (simp add: refreshVoteCountAndMaybeAdvance_settle_def finishOrAdvance_last Let_def)

lemma store_after_settle:
  "phase (store_after g (run_effects (handleFinishRound_settle s oc r))) = Scoreboard
   \<and> current_player (store_after g (run_effects (handleFinishRound_settle s oc r))) = None"
  by (simp add: handleFinishRound_settle_def store_after_def Let_def split: settled.splits)

lemma store_after_append: "store_after g (xs @ ys) = store_after (store_after g xs) ys"
  by (simp add: store_after_def)

text \<open>
  C5. Whenever an advance trigger (the countdown expiring, or the vote count reaching the
  quorum) fires while the current presenter is the last Player of the derived turn order,
  the engine does not move to another presenter: the trigger starts the round finish
  (the scoring call is issued, the call is suspended, no presenter change is issued), and
  the rest of the round finish writes \<^verbatim>\<open>phase = scoreboard\<close> and \<^verbatim>\<open>current_player = null\<close> to the
  Game row, again with no presenter change, whatever the awaited calls return.
\<close>

theorem C5_last_presenter_finishes_round:
  assumes "distinct (map pid (players s))" and "players s \<noteq> []"
    and "currentPlayerId s = Some (pid (last (sortedPlayers (players s))))"
    and "pid (last (sortedPlayers (players s))) \<noteq> []"
    and "\<not> advancingRef r" and "\<not> finishedRef r"
    and "previous \<le> 1" and "expectedVotes (players s) \<le> votes"
    and "t = countdownTick s previous r \<or> t = refreshVoteCountAndMaybeAdvance_settle s (Count (Some votes)) r"
  shows "run_pending t \<and> finishedRef (run_refs t)
    \<and> count_of is_scoring (run_effects t) = 1
    \<and> count_of is_presenter_change (run_effects t) = 0
    \<and> count_of is_presenter_change (run_effects (handleFinishRound_settle s oc (run_refs t))) = 0
    \<and> count_of is_phase_flip (run_effects (handleFinishRound_settle s oc (run_refs t))) = 1
    \<and> phase (store_after g (run_effects t @ run_effects (handleFinishRound_settle s oc (run_refs t)))) = Scoreboard
    \<and> current_player (store_after g (run_effects t @ run_effects (handleFinishRound_settle s oc (run_refs t)))) = None"
proof -
  have l: "isLastPlayer s" using assms(1-3) by (rule isLastPlayer_of_last)
  have tr: "truthy (currentPlayerId s)" using assms(3,4) by (simp add: truthy_def)
  from assms(9) have "run_pending t \<and> finishedRef (run_refs t)
    \<and> count_of is_scoring (run_effects t) = 1
    \<and> count_of is_presenter_change (run_effects t) = 0"
  proof
    assume "t = countdownTick s previous r"
    then show ?thesis
      by (simp add: countdownTick_last [OF l tr assms(5,6,7)] count_of_def)
  next
    assume "t = refreshVoteCountAndMaybeAdvance_settle s (Count (Some votes)) r"
    then show ?thesis
      by (simp add: poll_last [OF l assms(5,6,8)] count_of_def)
  qed
  then show ?thesis
    by (simp add: settle_counts store_after_append store_after_settle)
qed

theorem C5_last_presenter_finishes_round_witness:
  "run_pending (countdownTick (demo_snapshot demo_players (Some ''p2'')) 1 presenting_refs)
   \<and> count_of is_presenter_change
        (run_effects (countdownTick (demo_snapshot demo_players (Some ''p2'')) 1 presenting_refs)) = 0
   \<and> phase (store_after (demo_game (Some ''p2''))
        (run_effects (countdownTick (demo_snapshot demo_players (Some ''p2'')) 1 presenting_refs)
         @ run_effects (handleFinishRound_settle (demo_snapshot demo_players (Some ''p2'')) all_resolved
             (run_refs (countdownTick (demo_snapshot demo_players (Some ''p2'')) 1 presenting_refs)))))
      = Scoreboard"
proof -
  let ?s = "demo_snapshot demo_players (Some ''p2'')"
  have sp: "sortedPlayers demo_players = demo_players" by code_simp
  have h1: "distinct (map pid (players ?s))"
    by (simp add: demo_snapshot_def demo_players_def demo_player_def)
  have h2: "players ?s \<noteq> []" by (simp add: demo_snapshot_def demo_players_def)
  have h3: "currentPlayerId ?s = Some (pid (last (sortedPlayers (players ?s))))"
    by (simp add: demo_snapshot_def sp) (simp add: demo_players_def demo_player_def)
  have h4: "pid (last (sortedPlayers (players ?s))) \<noteq> []"
    by (simp add: demo_snapshot_def sp) (simp add: demo_players_def demo_player_def)
  have h5: "\<not> advancingRef presenting_refs" "\<not> finishedRef presenting_refs"
    by (simp_all add: presenting_refs_def)
  have h7: "(1::nat) \<le> 1" by simp
  have h8: "expectedVotes (players ?s) \<le> 2"
    by (simp add: demo_snapshot_def expectedVotes_def sp) (simp add: demo_players_def)
  have h9: "countdownTick ?s 1 presenting_refs = countdownTick ?s 1 presenting_refs
     \<or> countdownTick ?s 1 presenting_refs
        = refreshVoteCountAndMaybeAdvance_settle ?s (Count (Some 2)) presenting_refs"
    by simp
  show ?thesis
    using C5_last_presenter_finishes_round [OF h1 h2 h3 h4 h5 h7 h8 h9,
        of all_resolved "demo_game (Some ''p2'')"]
    by simp
qed

section \<open>Claims about the solo fast path\<close>

lemma advance_ignores_countdown:
  "advanceToNextPlayer (s\<lparr>voteCountdown := c\<rparr>) r = advanceToNextPlayer s r"
  by (simp add: advanceToNextPlayer_def currentIndex_def handleFinishRound_begin_def Let_def)

lemma solo_players: "expectedVotes ps = 0 \<Longrightarrow> length ps \<le> 1"
  by (simp add: expectedVotes_def length_sortedPlayers)

lemma solo_advance_cases:
  assumes "expectedVotes (players s) = 0" "\<not> advancingRef r" "\<not> finishedRef r"
  shows "(if players s \<noteq> [] \<and> currentPlayerId s \<noteq> Some (pid (hd (players s)))
          then advanceToNextPlayer s r =
                 Run (r\<lparr>countdownRef := True\<rparr>)
                   ([SetCurrentPlayerId (Some (pid (hd (players s)))),
                     SetCurrentGamePlayer (Some (pid (hd (players s))))]
                    @ (if countdownRef r then [ClearInterval Countdown] else [])
                    @ [SetVoteCountdown PRESENTATION_DURATION_SECONDS, SetInterval Countdown 1000,
                       GamesUpdate (PatchCurrentPlayer (Some (pid (hd (players s)))))])
                   False
          else advanceToNextPlayer s r =
                 Run (r\<lparr>advancingRef := True, finishedRef := True, countdownRef := False,
                        votePollRef := False\<rparr>)
                   ((if countdownRef r then [ClearInterval Countdown] else [])
                    @ (if votePollRef r then [ClearInterval VotePoll] else [])
                    @ [ComputeScores (gid (game s)) (round_no (game s))])
                   True)"
proof (cases "players s")
  case Nil
  then have "sortedPlayers (players s) = []" by (simp add: sortedPlayers_Nil_iff)
  then show ?thesis using Nil assms
    by (simp add: advanceToNextPlayer_def currentIndex_def begin_when_fresh Let_def)
next
  case (Cons p ps)
  with solo_players [OF assms(1)] have ps: "players s = [p]" by simp
  then have sp: "sortedPlayers (players s) = [p]"
    by (simp add: sortedPlayers_def array_sort_def)
  show ?thesis using ps sp assms
    by (auto simp add: advanceToNextPlayer_def currentIndex_def begin_when_fresh Let_def
        resetCountdown_def)
qed

text \<open>
  C6. Whenever \<^verbatim>\<open>expectedVotes\<close> is 0 (no player or a single one) and no advance is in flight
  (and the round has not finished already), the effect on \<^verbatim>\<open>expectedVotes\<close> advances at once,
  whatever the countdown shows: it runs \<^verbatim>\<open>advanceToNextPlayer\<close>, which either makes the solo
  player the presenter (when that player is not the presenter yet) or starts the round
  finish.
\<close>

theorem C6_solo_fast_path:
  assumes "expectedVotes (players s) = 0" and "\<not> advancingRef r" and "\<not> finishedRef r"
  shows "soloFastPath (s\<lparr>voteCountdown := c\<rparr>) r = advanceToNextPlayer s r
    \<and> (if players s \<noteq> [] \<and> currentPlayerId s \<noteq> Some (pid (hd (players s)))
        then advance_writes (run_effects (soloFastPath (s\<lparr>voteCountdown := c\<rparr>) r))
               = [Some (pid (hd (players s)))]
        else run_pending (soloFastPath (s\<lparr>voteCountdown := c\<rparr>) r)
             \<and> count_of is_scoring (run_effects (soloFastPath (s\<lparr>voteCountdown := c\<rparr>) r)) = 1)"
proof -
  have e: "soloFastPath (s\<lparr>voteCountdown := c\<rparr>) r = advanceToNextPlayer s r"
    using assms(1,2) by (simp add: soloFastPath_def advance_ignores_countdown)
  show ?thesis
    unfolding e using solo_advance_cases [OF assms]
    by (simp add: advance_writes_def count_of_def split: if_splits)
qed

theorem C6_solo_fast_path_witness:
  "run_pending (soloFastPath (demo_snapshot [demo_player ''p0'' ''u0'' 0] (Some ''p0'')
       \<lparr>voteCountdown := 20\<rparr>) presenting_refs)
   \<and> count_of is_scoring (run_effects (soloFastPath (demo_snapshot [demo_player ''p0'' ''u0'' 0] (Some ''p0'')
       \<lparr>voteCountdown := 20\<rparr>) presenting_refs)) = 1"
proof -
  let ?s = "demo_snapshot [demo_player ''p0'' ''u0'' 0] (Some ''p0'')"
  have h1: "expectedVotes (players ?s) = 0" by code_simp
  have h2: "\<not> advancingRef presenting_refs" "\<not> finishedRef presenting_refs"
    by (simp_all add: presenting_refs_def)
  have c: "\<not> (players ?s \<noteq> [] \<and> currentPlayerId ?s \<noteq> Some (pid (hd (players ?s))))"
    by (simp add: demo_snapshot_def demo_player_def)
  from C6_solo_fast_path [OF h1 h2, of 20]
  have "if players ?s \<noteq> [] \<and> currentPlayerId ?s \<noteq> Some (pid (hd (players ?s)))
        then advance_writes (run_effects (soloFastPath (?s\<lparr>voteCountdown := 20\<rparr>) presenting_refs))
               = [Some (pid (hd (players ?s)))]
        else run_pending (soloFastPath (?s\<lparr>voteCountdown := 20\<rparr>) presenting_refs)
             \<and> count_of is_scoring (run_effects (soloFastPath (?s\<lparr>voteCountdown := 20\<rparr>) presenting_refs)) = 1"
    by (rule conjunct2)
  with c show ?thesis by (simp only: if_not_P if_False)
qed

section \<open>Claims about the advance guard\<close>

lemma advance_writes_append: "advance_writes (xs @ ys) = advance_writes xs @ advance_writes ys"
  by (simp add: advance_writes_def List.map_filter_def)

lemma advance_writes_simps:
  "advance_writes [] = []"
  "advance_writes (e # es) = (case advance_target e of None \<Rightarrow> advance_writes es
                               | Some p \<Rightarrow> p # advance_writes es)"
  by (simp_all add: advance_writes_def split: option.splits)

lemma rerender_append: "rerender s (xs @ ys) = rerender (rerender s xs) ys"
  by (simp add: rerender_def)

lemma advance_to_next:
  assumes "\<not> advancingRef r"
    "currentIndex s + 1 < int (length (sortedPlayers (players s)))"
  shows "advanceToNextPlayer s r =
     Run (r\<lparr>countdownRef := True\<rparr>)
         ([SetCurrentPlayerId (Some (next_id s)), SetCurrentGamePlayer (Some (next_id s))]
          @ (if countdownRef r then [ClearInterval Countdown] else [])
          @ [SetVoteCountdown PRESENTATION_DURATION_SECONDS, SetInterval Countdown 1000,
             GamesUpdate (PatchCurrentPlayer (Some (next_id s)))])
         False"
proof (cases "0 \<le> currentIndex s")
  case True
  then show ?thesis using assms by (rule_tac advance_with_successor)
next
  case False
  with findIndex_bounds [of "\<lambda>p. Some (pid p) = currentPlayerId s" "sortedPlayers (players s)"]
  have i: "currentIndex s = -1" by (simp add: currentIndex_def)
  then show ?thesis using assms
    by (simp add: advanceToNextPlayer_def resetCountdown_def Let_def next_id_def)
qed

lemma not_last_when_next:
  "currentIndex s + 1 < int (length (sortedPlayers (players s))) \<Longrightarrow> \<not> isLastPlayer s"
  by (simp add: isLastPlayer_def)

lemma trigger_to_next:
  assumes "\<not> advancingRef r" "\<not> finishedRef r"
    "currentIndex s + 1 < int (length (sortedPlayers (players s)))"
  shows "run_refs (finishOrAdvance s r) = r\<lparr>countdownRef := True\<rparr>"
    and "\<not> run_pending (finishOrAdvance s r)"
    and "advance_writes (run_effects (finishOrAdvance s r)) = [Some (next_id s)]"
    and "count_of is_scoring (run_effects (finishOrAdvance s r)) = 0"
    and "currentPlayerId (rerender s0 (run_effects (finishOrAdvance s r))) = Some (next_id s)"
  using assms
  by (simp_all add: finishOrAdvance_def not_last_when_next advance_to_next
      advance_writes_simps advance_writes_append count_of_def rerender_def)

lemma advance_to_finish:
  assumes "\<not> advancingRef r"
    "\<not> currentIndex s + 1 < int (length (sortedPlayers (players s)))"
  shows "advanceToNextPlayer s r = handleFinishRound_begin s (r\<lparr>advancingRef := True\<rparr>)"
proof -
  have "-1 \<le> currentIndex s"
    using findIndex_bounds [of "\<lambda>p. Some (pid p) = currentPlayerId s" "sortedPlayers (players s)"]
    by (simp add: currentIndex_def)
  with assms(2)
  have "int (length (sortedPlayers (players s)))
          \<le> (if currentIndex s \<ge> 0 then currentIndex s + 1 else 0)"
    by (cases "sortedPlayers (players s)") auto
  then show ?thesis using assms(1)
    by (simp add: advanceToNextPlayer_def Let_def)
qed

lemma trigger_to_finish:
  assumes "\<not> advancingRef r" "\<not> finishedRef r"
    "\<not> currentIndex s + 1 < int (length (sortedPlayers (players s)))"
  shows "finishedRef (run_refs (finishOrAdvance s r))"
    and "run_pending (finishOrAdvance s r)"
    and "advance_writes (run_effects (finishOrAdvance s r)) = []"
    and "count_of is_scoring (run_effects (finishOrAdvance s r)) = 1"
    and "rerender s0 (run_effects (finishOrAdvance s r)) = s0"
  using assms
  by (simp_all add: finishOrAdvance_def advance_to_finish begin_when_fresh
      advance_writes_simps advance_writes_append count_of_def rerender_def)

lemma countdownTick_fires:
  assumes "previous \<le> 1" "truthy (currentPlayerId s)" "\<not> advancingRef r" "\<not> finishedRef r"
  shows "countdownTick s previous r =
     Run (run_refs (finishOrAdvance s r))
         ((if countdownRef r then [ClearInterval Countdown] else [])
          @ run_effects (finishOrAdvance s r) @ [SetVoteCountdown 0])
         (run_pending (finishOrAdvance s r))"
  using assms by (simp add: countdownTick_def Let_def)

lemma countdownTick_blocked:
  assumes "previous \<le> 1" "advancingRef r \<or> finishedRef r"
  shows "countdownTick s previous r =
     Run r ((if countdownRef r then [ClearInterval Countdown] else []) @ [SetVoteCountdown 0]) False"
  using assms by (auto simp add: countdownTick_def Let_def)

lemma poll_fires:
  assumes "expectedVotes (players s) \<le> votes" "\<not> advancingRef r" "\<not> finishedRef r"
  shows "refreshVoteCountAndMaybeAdvance_settle s (Count (Some votes)) r =
     Run (run_refs (finishOrAdvance s r))
         (SetCurrentTargetVoteCount votes # run_effects (finishOrAdvance s r))
         (run_pending (finishOrAdvance s r))"
  using assms by (simp add: refreshVoteCountAndMaybeAdvance_settle_def Let_def)

lemma poll_blocked:
  assumes "advancingRef r \<or> finishedRef r"
  shows "refreshVoteCountAndMaybeAdvance_settle s (Count (Some votes)) r =
     Run r [SetCurrentTargetVoteCount votes] False"
  using assms by (auto simp add: refreshVoteCountAndMaybeAdvance_settle_def Let_def)

lemma both_triggers_to_next:
  assumes "\<not> advancingRef r" "\<not> finishedRef r" "truthy (currentPlayerId s)"
    "previous \<le> 1" "expectedVotes (players s) \<le> votes"
    "currentIndex s + 1 < int (length (sortedPlayers (players s)))"
  shows "advance_writes (run_effects (timer_then_poll s previous votes r))
           = [Some (next_id s), Some (next_id s)]"
    and "advance_writes (run_effects (poll_then_timer s previous votes r))
           = [Some (next_id s), Some (next_id s)]"
    and "count_of is_scoring (run_effects (timer_then_poll s previous votes r)) = 0"
    and "count_of is_scoring (run_effects (poll_then_timer s previous votes r)) = 0"
    and "currentPlayerId (rerender s (run_effects (timer_then_poll s previous votes r)))
           = Some (next_id s)"
    and "currentPlayerId (rerender s (run_effects (poll_then_timer s previous votes r)))
           = Some (next_id s)"
    and "\<not> advancingRef (run_refs (countdownTick s previous r))"
    and "\<not> advancingRef (run_refs (refreshVoteCountAndMaybeAdvance_settle s (Count (Some votes)) r))"
proof -
  let ?r' = "r\<lparr>countdownRef := True\<rparr>"
  have g': "\<not> advancingRef ?r'" "\<not> finishedRef ?r'" using assms(1,2) by simp_all
  note n1 = trigger_to_next [OF assms(1,2,6)]
  note n2 = trigger_to_next [OF g' assms(6)]
  have t1: "countdownTick s previous r =
     Run ?r' ((if countdownRef r then [ClearInterval Countdown] else [])
          @ run_effects (finishOrAdvance s r) @ [SetVoteCountdown 0]) False"
    by (simp add: countdownTick_fires [OF assms(4,3,1,2)] n1)
  have p1: "refreshVoteCountAndMaybeAdvance_settle s (Count (Some votes)) r =
     Run ?r' (SetCurrentTargetVoteCount votes # run_effects (finishOrAdvance s r)) False"
    by (simp add: poll_fires [OF assms(5,1,2)] n1)
  have t2: "countdownTick s previous ?r' =
     Run ?r' ([ClearInterval Countdown]
          @ run_effects (finishOrAdvance s ?r') @ [SetVoteCountdown 0]) False"
    by (simp add: countdownTick_fires [OF assms(4,3) g'] n2)
  have p2: "refreshVoteCountAndMaybeAdvance_settle s (Count (Some votes)) ?r' =
     Run ?r' (SetCurrentTargetVoteCount votes # run_effects (finishOrAdvance s ?r')) False"
    by (simp add: poll_fires [OF assms(5) g'] n2)
  show "advance_writes (run_effects (timer_then_poll s previous votes r))
           = [Some (next_id s), Some (next_id s)]"
    by (simp add: timer_then_poll_def t1 p2 Let_def advance_writes_append advance_writes_simps
        n1(3) n2(3))
  show "advance_writes (run_effects (poll_then_timer s previous votes r))
           = [Some (next_id s), Some (next_id s)]"
    by (simp add: poll_then_timer_def p1 t2 Let_def advance_writes_append advance_writes_simps
        n1(3) n2(3))
  show "count_of is_scoring (run_effects (timer_then_poll s previous votes r)) = 0"
    using n1(4) n2(4)
    by (simp add: timer_then_poll_def t1 p2 Let_def count_of_def)
  show "count_of is_scoring (run_effects (poll_then_timer s previous votes r)) = 0"
    using n1(4) n2(4)
    by (simp add: poll_then_timer_def p1 t2 Let_def count_of_def)
  show "currentPlayerId (rerender s (run_effects (timer_then_poll s previous votes r)))
           = Some (next_id s)"
    by (simp add: timer_then_poll_def t1 p2 Let_def rerender_append n2(5))
       (simp add: rerender_def n2(5) [unfolded rerender_def])
  show "currentPlayerId (rerender s (run_effects (poll_then_timer s previous votes r)))
           = Some (next_id s)"
    by (simp add: poll_then_timer_def p1 t2 Let_def rerender_append)
       (simp add: rerender_def n2(5) [unfolded rerender_def])
  show "\<not> advancingRef (run_refs (countdownTick s previous r))"
    using assms(1) by (simp add: t1)
  show "\<not> advancingRef (run_refs (refreshVoteCountAndMaybeAdvance_settle s (Count (Some votes)) r))"
    using assms(1) by (simp add: p1)
qed

lemma both_triggers_to_finish:
  assumes "\<not> advancingRef r" "\<not> finishedRef r" "truthy (currentPlayerId s)"
    "previous \<le> 1" "expectedVotes (players s) \<le> votes"
    "\<not> currentIndex s + 1 < int (length (sortedPlayers (players s)))"
  shows "advance_writes (run_effects (timer_then_poll s previous votes r)) = []"
    and "advance_writes (run_effects (poll_then_timer s previous votes r)) = []"
    and "count_of is_scoring (run_effects (timer_then_poll s previous votes r)) = 1"
    and "count_of is_scoring (run_effects (poll_then_timer s previous votes r)) = 1"
proof -
  let ?a = "finishOrAdvance s r"
  note f = trigger_to_finish [OF assms(1,2,6)]
  have t1: "countdownTick s previous r =
     Run (run_refs ?a) ((if countdownRef r then [ClearInterval Countdown] else [])
          @ run_effects ?a @ [SetVoteCountdown 0]) True"
    by (simp add: countdownTick_fires [OF assms(4,3,1,2)] f)
  have p1: "refreshVoteCountAndMaybeAdvance_settle s (Count (Some votes)) r =
     Run (run_refs ?a) (SetCurrentTargetVoteCount votes # run_effects ?a) True"
    by (simp add: poll_fires [OF assms(5,1,2)] f)
  have b: "advancingRef (run_refs ?a) \<or> finishedRef (run_refs ?a)" using f(1) by simp
  note t2 = countdownTick_blocked [OF assms(4) b, of s]
  note p2 = poll_blocked [OF b, of s votes]
  show "advance_writes (run_effects (timer_then_poll s previous votes r)) = []"
    by (simp add: timer_then_poll_def t1 p2 Let_def advance_writes_append advance_writes_simps f(3))
  show "advance_writes (run_effects (poll_then_timer s previous votes r)) = []"
    by (simp add: poll_then_timer_def p1 t2 Let_def advance_writes_append advance_writes_simps f(3))
  show "count_of is_scoring (run_effects (timer_then_poll s previous votes r)) = 1"
    using f(4) by (simp add: timer_then_poll_def t1 p2 Let_def count_of_def)
  show "count_of is_scoring (run_effects (poll_then_timer s previous votes r)) = 1"
    using f(4) by (simp add: poll_then_timer_def p1 t2 Let_def count_of_def)
qed

text \<open>
  C1, as the code has it. A call of \<^verbatim>\<open>advanceToNextPlayer\<close> made while the \<^verbatim>\<open>advancing\<close> flag
  is set is a no-op. When the countdown reaching zero and the vote-count poll observing the
  quorum fire back to back on one render, in either order, with no advance in flight:
  if the presenter has no successor in the turn order, exactly one round finish is started
  and no presenter write is issued (the second trigger is stopped by the \<^verbatim>\<open>finished\<close> flag);
  if the presenter has a successor, the flag is clear again when the first trigger returns,
  so each trigger runs the advance: two store writes of \<^verbatim>\<open>current_player\<close> are issued, both
  naming the same next presenter, and the presenter of the next render is that player.
\<close>

theorem C1_triggers_in_one_tick:
  assumes "\<not> advancingRef r" and "\<not> finishedRef r" and "truthy (currentPlayerId s)"
    and "previous \<le> 1" and "expectedVotes (players s) \<le> votes"
    and "t = timer_then_poll s previous votes r \<or> t = poll_then_timer s previous votes r"
  shows "advanceToNextPlayer s (r\<lparr>advancingRef := True\<rparr>) = Run (r\<lparr>advancingRef := True\<rparr>) [] False
    \<and> (if currentIndex s + 1 < int (length (sortedPlayers (players s)))
        then advance_writes (run_effects t) = [Some (next_id s), Some (next_id s)]
           \<and> count_of is_scoring (run_effects t) = 0
           \<and> currentPlayerId (rerender s (run_effects t)) = Some (next_id s)
           \<and> \<not> advancingRef (run_refs (countdownTick s previous r))
           \<and> \<not> advancingRef (run_refs (refreshVoteCountAndMaybeAdvance_settle s (Count (Some votes)) r))
        else advance_writes (run_effects t) = []
           \<and> count_of is_scoring (run_effects t) = 1)"
proof -
  have a: "advanceToNextPlayer s (r\<lparr>advancingRef := True\<rparr>) = Run (r\<lparr>advancingRef := True\<rparr>) [] False"
    by (simp add: advance_when_advancing)
  show ?thesis
  proof (cases "currentIndex s + 1 < int (length (sortedPlayers (players s)))")
    case True
    note n = both_triggers_to_next [OF assms(1-5) True]
    from assms(6) show ?thesis using a True n by auto
  next
    case False
    note n = both_triggers_to_finish [OF assms(1-5) False]
    from assms(6) show ?thesis using a False n by auto
  qed
qed

theorem C1_triggers_in_one_tick_witness:
  "advance_writes (run_effects
      (timer_then_poll (demo_snapshot demo_players (Some ''p1'')) 1 2 presenting_refs))
     = [Some ''p2'', Some ''p2'']
   \<and> currentPlayerId (rerender (demo_snapshot demo_players (Some ''p1''))
        (run_effects (timer_then_poll (demo_snapshot demo_players (Some ''p1'')) 1 2 presenting_refs)))
     = Some ''p2''"
proof -
  let ?s = "demo_snapshot demo_players (Some ''p1'')"
  have h1: "\<not> advancingRef presenting_refs" "\<not> finishedRef presenting_refs"
    by (simp_all add: presenting_refs_def)
  have h3: "truthy (currentPlayerId ?s)" by (simp add: truthy_def demo_snapshot_def)
  have h4: "(1::nat) \<le> 1" by simp
  have h5: "expectedVotes (players ?s) \<le> 2" by code_simp
  have h6: "timer_then_poll ?s 1 2 presenting_refs = timer_then_poll ?s 1 2 presenting_refs
    \<or> timer_then_poll ?s 1 2 presenting_refs = poll_then_timer ?s 1 2 presenting_refs" by simp
  have c: "currentIndex ?s + 1 < int (length (sortedPlayers (players ?s)))" by code_simp
  have n: "next_id ?s = ''p2''" by code_simp
  from C1_triggers_in_one_tick [OF h1 h3 h4 h5 h6] c n show ?thesis
    by (simp only: if_True)
qed

text \<open>
  C1, as stated, fails: with three players and the first one presenting, the countdown
  reaching zero and the poll observing two votes in the same tick issue two presenter
  writes, not one, and the second call of \<^verbatim>\<open>advanceToNextPlayer\<close> finds the flag clear.
\<close>

theorem C1_counterexample:
  "advance_writes (run_effects
      (timer_then_poll (demo_snapshot demo_players (Some ''p0'')) 1 2 presenting_refs))
     = [Some ''p1'', Some ''p1'']
   \<and> \<not> advancingRef (run_refs (countdownTick (demo_snapshot demo_players (Some ''p0'')) 1 presenting_refs))
   \<and> advanceToNextPlayer (demo_snapshot demo_players (Some ''p0''))
        (run_refs (countdownTick (demo_snapshot demo_players (Some ''p0'')) 1 presenting_refs))
      \<noteq> Run (run_refs (countdownTick (demo_snapshot demo_players (Some ''p0'')) 1 presenting_refs)) [] False"
  by code_simp

section \<open>Claims about the lifetime of the guards\<close>

text \<open>
  C8, as the code has it. Both guards are set in the synchronous prefix of their handler,
  before the first asynchronous call is issued. \<^verbatim>\<open>finished\<close> is never cleared by the
  round-finish path. \<^verbatim>\<open>advancing\<close>, when \<^verbatim>\<open>advanceToNextPlayer\<close> leads to the round finish, stays
  set while the finish is awaited and is cleared when the finish settles, for every outcome
  of the awaited calls. When \<^verbatim>\<open>advanceToNextPlayer\<close> moves to a next presenter nothing is
  awaited: the flag is clear again when the function returns, with the store write of
  \<^verbatim>\<open>current_player\<close> issued and not yet settled, and the callback that runs when the write
  settles only logs and writes no ref.
\<close>

theorem C8_guard_lifetime:
  assumes "\<not> advancingRef r" and "\<not> finishedRef r"
  shows "run_pending (handleFinishRound_begin s r)
    \<and> finishedRef (run_refs (handleFinishRound_begin s r))
    \<and> finishedRef (run_refs (handleFinishRound_settle s oc (run_refs (handleFinishRound_begin s r))))
    \<and> run_refs (updateCurrentPlayer_then err r') = r'
    \<and> (if currentIndex s + 1 < int (length (sortedPlayers (players s)))
        then \<not> run_pending (advanceToNextPlayer s r)
           \<and> advance_writes (run_effects (advanceToNextPlayer s r)) = [Some (next_id s)]
           \<and> \<not> advancingRef (run_refs (advanceToNextPlayer s r))
        else run_pending (advanceToNextPlayer s r)
           \<and> advancingRef (run_refs (advanceToNextPlayer s r))
           \<and> finishedRef (run_refs (advanceToNextPlayer s r))
           \<and> \<not> advancingRef (run_refs (handleFinishRound_settle s oc (run_refs (advanceToNextPlayer s r))))
           \<and> finishedRef (run_refs (handleFinishRound_settle s oc (run_refs (advanceToNextPlayer s r)))))"
proof -
  have b: "run_pending (handleFinishRound_begin s r)
    \<and> finishedRef (run_refs (handleFinishRound_begin s r))
    \<and> finishedRef (run_refs (handleFinishRound_settle s oc (run_refs (handleFinishRound_begin s r))))"
    using assms(2) by (simp add: begin_when_fresh settle_refs)
  have u: "run_refs (updateCurrentPlayer_then err r') = r'"
    by (simp add: updateCurrentPlayer_then_def)
  show ?thesis
  proof (cases "currentIndex s + 1 < int (length (sortedPlayers (players s)))")
    case True
    then show ?thesis using b u assms(1)
      by (simp add: advance_to_next [OF assms(1) True] advance_writes_simps advance_writes_append)
  next
    case False
    then show ?thesis using b u assms
      by (simp add: advance_to_finish [OF assms(1) False] begin_when_fresh settle_refs)
  qed
qed

theorem C8_guard_lifetime_witness:
  "advancingRef (run_refs (advanceToNextPlayer (demo_snapshot demo_players (Some ''p2'')) presenting_refs))
   \<and> run_pending (advanceToNextPlayer (demo_snapshot demo_players (Some ''p2'')) presenting_refs)
   \<and> \<not> advancingRef (run_refs (handleFinishRound_settle (demo_snapshot demo_players (Some ''p2''))
         all_rejected
         (run_refs (advanceToNextPlayer (demo_snapshot demo_players (Some ''p2'')) presenting_refs))))"
proof -
  let ?s = "demo_snapshot demo_players (Some ''p2'')"
  have h1: "\<not> advancingRef presenting_refs" and h2: "\<not> finishedRef presenting_refs"
    by (simp_all add: presenting_refs_def)
  have c: "\<not> currentIndex ?s + 1 < int (length (sortedPlayers (players ?s)))" by code_simp
  from C8_guard_lifetime [OF h1 h2, of ?s all_rejected False presenting_refs] c show ?thesis
    by (simp only: if_False simp_thms)
qed

text \<open>
  C8, as stated, fails: with the first of three players presenting, \<^verbatim>\<open>advanceToNextPlayer\<close>
  returns with the store write of \<^verbatim>\<open>current_player\<close> issued, nothing awaited, and the
  \<^verbatim>\<open>advancing\<close> flag already clear.
\<close>

theorem C8_counterexample:
  "advance_writes (run_effects (advanceToNextPlayer (demo_snapshot demo_players (Some ''p0'')) presenting_refs))
     = [Some ''p1'']
   \<and> \<not> run_pending (advanceToNextPlayer (demo_snapshot demo_players (Some ''p0'')) presenting_refs)
   \<and> \<not> advancingRef (run_refs (advanceToNextPlayer (demo_snapshot demo_players (Some ''p0'')) presenting_refs))"
  by code_simp

section \<open>Claims about vote submission\<close>

lemma currentPlayer_hasVoted: "currentPlayer (s\<lparr>hasVoted := b\<rparr>) = currentPlayer s"
  by (simp add: currentPlayer_def)

lemma submit_begin_goes:
  assumes "currentPlayer s = Some cp" "selectedStars s \<noteq> 0" "\<not> finishedRef r"
  shows "submitCurrentVote_begin s r =
     Run r [SetHasVoted True,
            SubmitVote (gid (game s)) (round_no (game s)) (pid cp) (selectedStars s)] True"
  using assms by (simp add: submitCurrentVote_begin_def)

lemma refresh_begin_no_setter:
  "rerender s0 (run_effects (refreshVoteCountAndMaybeAdvance_begin s r)) = s0"
  by (simp add: refreshVoteCountAndMaybeAdvance_begin_def rerender_def)

text \<open>
  C7, as the code has it. For a submit-vote attempt that goes through (a current presenter,
  a star value selected, the round not finished): when the network call fails, the
  optimistic \<^verbatim>\<open>hasVoted\<close> flag is rolled back to false, the selected star value is kept, the
  same vote can be submitted again, and the error is written to the console log, with no
  alert shown to the user; when the call succeeds, \<^verbatim>\<open>hasVoted\<close> stays true.
\<close>

theorem C7_submit_vote_rollback:
  assumes "currentPlayer s = Some cp" and "selectedStars s \<noteq> 0" and "\<not> finishedRef r"
    and "failed = run_effects (submitCurrentVote_begin s r)
                  @ run_effects (submitCurrentVote_settle s Rejected r)"
    and "succeeded = run_effects (submitCurrentVote_begin s r)
                  @ run_effects (submitCurrentVote_settle s (Resolved ()) r)"
  shows "run_pending (submitCurrentVote_begin s r)
    \<and> hasVoted (rerender s (run_effects (submitCurrentVote_begin s r)))
    \<and> \<not> hasVoted (rerender s failed)
    \<and> selectedStars (rerender s failed) = selectedStars s
    \<and> submitCurrentVote_begin (rerender s failed) r = submitCurrentVote_begin s r
    \<and> run_effects (submitCurrentVote_settle s Rejected r)
        = [SetHasVoted False, ConsoleWarn ''[Rating] submit vote failed'']
    \<and> count_of is_alert failed = 0
    \<and> hasVoted (rerender s succeeded)
    \<and> selectedStars (rerender s succeeded) = selectedStars s"
proof -
  note b = submit_begin_goes [OF assms(1-3)]
  have f: "rerender s failed = s\<lparr>hasVoted := False\<rparr>"
    by (simp add: assms(4) b submitCurrentVote_settle_def rerender_def)
  have su: "rerender s succeeded = s\<lparr>hasVoted := True\<rparr>"
    by (simp add: assms(5) b submitCurrentVote_settle_def rerender_append refresh_begin_no_setter)
       (simp add: rerender_def refresh_begin_no_setter [unfolded rerender_def])
  have again: "submitCurrentVote_begin (s\<lparr>hasVoted := False\<rparr>) r = submitCurrentVote_begin s r"
    by (simp add: submitCurrentVote_begin_def currentPlayer_hasVoted split: option.splits)
  have al: "count_of is_alert failed = 0"
    by (simp add: assms(4) b submitCurrentVote_settle_def count_of_def)
  show ?thesis
    unfolding f su again using al
    by (simp add: b submitCurrentVote_settle_def rerender_def)
qed

theorem C7_submit_vote_rollback_witness:
  "\<not> hasVoted (rerender (demo_snapshot demo_players (Some ''p1''))
      (run_effects (submitCurrentVote_begin (demo_snapshot demo_players (Some ''p1'')) presenting_refs)
       @ run_effects (submitCurrentVote_settle (demo_snapshot demo_players (Some ''p1'')) Rejected
           presenting_refs)))
   \<and> hasVoted (rerender (demo_snapshot demo_players (Some ''p1''))
      (run_effects (submitCurrentVote_begin (demo_snapshot demo_players (Some ''p1'')) presenting_refs)
       @ run_effects (submitCurrentVote_settle (demo_snapshot demo_players (Some ''p1'')) (Resolved ())
           presenting_refs)))"
proof -
  let ?s = "demo_snapshot demo_players (Some ''p1'')"
  have h1: "currentPlayer ?s = Some (demo_player ''p1'' ''u1'' 1000)" by code_simp
  have h2: "selectedStars ?s \<noteq> 0" by (simp add: demo_snapshot_def)
  have h3: "\<not> finishedRef presenting_refs" by (simp add: presenting_refs_def)
  from C7_submit_vote_rollback [OF h1 h2 h3 refl refl] show ?thesis by blast
qed

text \<open>
  C7, as stated, fails: a failed submit-vote attempt raises no alert (the only report is a
  console log line), whereas the earlier version of the handler raised one.
\<close>

theorem C7_counterexample:
  "count_of is_alert
     (run_effects (submitCurrentVote_begin (demo_snapshot demo_players (Some ''p1'')) presenting_refs)
      @ run_effects (submitCurrentVote_settle (demo_snapshot demo_players (Some ''p1'')) Rejected
          presenting_refs)) = 0
   \<and> run_effects (submitCurrentVote_settle (demo_snapshot demo_players (Some ''p1'')) Rejected
          presenting_refs) = [SetHasVoted False, ConsoleWarn ''[Rating] submit vote failed'']
   \<and> count_of is_alert
     (run_effects (submitCurrentVote_old_begin (demo_snapshot demo_players (Some ''p1'')) presenting_refs)
      @ run_effects (submitCurrentVote_old_settle (demo_snapshot demo_players (Some ''p1'')) Rejected
          presenting_refs)) = 1"
  by code_simp

section \<open>Claims about the turn order\<close>

lemma sortedPlayers_stable:
  "filter (\<lambda>p. created p = k) (sortedPlayers ps) = filter (\<lambda>p. created p = k) ps"
  unfolding sortedPlayers_sort_key by (rule sort_key_stable)

lemma sortedPlayers_same_when_distinct:
  assumes "distinct (map created ps)" "mset qs = mset ps"
  shows "sortedPlayers qs = sortedPlayers ps"
proof -
  have m: "mset qs = mset (sortedPlayers ps)" using assms(2) by (simp add: mset_sortedPlayers)
  have "set qs = set ps" using assms(2) by (rule mset_eq_setD)
  then have i: "inj_on created (set qs)" using assms(1) by (simp add: distinct_map)
  show ?thesis
    unfolding sortedPlayers_sort_key [of qs]
    by (rule sort_key_inj_key_eq [OF m i sorted_sortedPlayers])
qed

text \<open>
  C3, as the code has it. The derived turn order is the stable sort of the Player array on
  \<^verbatim>\<open>created_at\<close> ascending: a permutation of the array, ascending in \<^verbatim>\<open>created_at\<close>, in which
  players with equal \<^verbatim>\<open>created_at\<close> keep the order they have in the array (the Player id is
  not consulted). When the \<^verbatim>\<open>created_at\<close> values are pairwise different, it equals the order
  sorted on \<^verbatim>\<open>created_at\<close> with the id as tie-break, and two clients whose arrays hold the
  same players, in any order, derive the same presenter order.
\<close>

theorem C3_turn_order:
  "mset (sortedPlayers ps) = mset ps
   \<and> sorted (map created (sortedPlayers ps))
   \<and> filter (\<lambda>p. created p = k) (sortedPlayers ps) = filter (\<lambda>p. created p = k) ps
   \<and> (distinct (map created ps) \<longrightarrow> sortedPlayers ps = spec_turn_order ps)
   \<and> (distinct (map created ps) \<and> mset qs = mset ps \<longrightarrow> sortedPlayers qs = sortedPlayers ps)"
  using mset_sortedPlayers [of ps] sorted_sortedPlayers [of ps] sortedPlayers_stable [of k ps]
    sortedPlayers_spec_when_distinct [of ps] sortedPlayers_same_when_distinct [of ps qs]
  by blast

theorem C3_turn_order_witness:
  "sortedPlayers (rev demo_players) = spec_turn_order (rev demo_players)
   \<and> sortedPlayers demo_players = sortedPlayers (rev demo_players)"
proof -
  have d: "distinct (map created (rev demo_players))" by code_simp
  have m: "mset demo_players = mset (rev demo_players)" by simp
  from C3_turn_order [of "rev demo_players" 0 demo_players] d m show ?thesis by blast
qed

text \<open>
  C3, as stated, fails: two players with the same \<^verbatim>\<open>created_at\<close> stay in array order, so the
  player with the greater id can come first, and a client that holds the same two players
  in the other array order derives the other presenter order.
\<close>

theorem C3_counterexample:
  "sortedPlayers [demo_player ''b'' ''u1'' 1000, demo_player ''a'' ''u2'' 1000]
     = [demo_player ''b'' ''u1'' 1000, demo_player ''a'' ''u2'' 1000]
   \<and> spec_turn_order [demo_player ''b'' ''u1'' 1000, demo_player ''a'' ''u2'' 1000]
     = [demo_player ''a'' ''u2'' 1000, demo_player ''b'' ''u1'' 1000]
   \<and> sortedPlayers [demo_player ''a'' ''u2'' 1000, demo_player ''b'' ''u1'' 1000]
     \<noteq> sortedPlayers [demo_player ''b'' ''u1'' 1000, demo_player ''a'' ''u2'' 1000]"
  by code_simp

section \<open>Claims about avatar sources\<close>

lemma first_candidate_Some:
  "first_candidate f keys = Some c \<Longrightarrow> c \<noteq> [] \<and> (\<exists>key\<in>set keys. f key = Some c)"
  by (induction keys) (auto split: option.splits if_splits)

lemma data_image_prefix: "prefix ''data:image/'' s \<Longrightarrow> is_data_image s"
proof -
  assume "prefix ''data:image/'' s"
  then obtain t where "s = ''data:image/'' @ t" by (auto simp: prefix_def)
  then show ?thesis by (simp add: is_data_image_def ascii_lower_def)
qed

lemma normalize_shape:
  assumes "normalizeModelCandidate v = Some s"
  shows "(prefix ''http://'' s \<or> prefix ''https://'' s \<or> prefix ''data:'' s)
         \<and> \<not> is_data_image s \<and> s \<noteq> []"
proof -
  let ?t = "trim v"
  consider (url) "?t \<noteq> []" "prefix ''http://'' ?t \<or> prefix ''https://'' ?t" "s = ?t"
    | (data) "?t \<noteq> []" "\<not> (prefix ''http://'' ?t \<or> prefix ''https://'' ?t)" "prefix ''data:'' ?t" "\<not> is_data_image ?t" "s = ?t"
    | (b64) "s = ''data:model/gltf-binary;base64,'' @ ?t"
    using assms
    by (auto simp add: normalizeModelCandidate_def Let_def startsWith_def split: if_splits)
  then show ?thesis
  proof cases
    case url
    have "\<not> is_data_image ?t"
      using url(2) by (auto simp add: is_data_image_def prefix_def ascii_lower_def)
    then show ?thesis using url by auto
  next
    case data
    then show ?thesis by auto
  next
    case b64
    then show ?thesis by (simp add: is_data_image_def ascii_lower_def)
  qed
qed

lemma extract_shape:
  "extractAvatarSource h payload depth = Some s \<Longrightarrow>
     (prefix ''http://'' s \<or> prefix ''https://'' s \<or> prefix ''data:'' s)
     \<and> \<not> is_data_image s \<and> s \<noteq> []"
proof (induction h payload depth rule: extractAvatarSource.induct)
  case (1 h payload depth)
  from "1.prems" have g: "\<not> (falsy payload \<or> MAX_NESTING_DEPTH < depth)"
    by (auto split: if_splits)
  show ?case
  proof (cases payload)
    case (JString x)
    with "1.prems" g have "normalizeModelCandidate x = Some s" by simp
    then show ?thesis by (rule normalize_shape)
  next
    case (JObject a)
    with "1.prems" g have
      "first_candidate
         (\<lambda>key. case map_of (h a) key of None \<Rightarrow> None
                 | Some v \<Rightarrow> extractAvatarSource h v (depth + 1))
         MODEL_SOURCE_KEYS = Some s"
      by simp
    from first_candidate_Some [OF this]
    obtain key where
      "(case map_of (h a) key of None \<Rightarrow> None
        | Some v \<Rightarrow> extractAvatarSource h v (depth + 1)) = Some s"
      by blast
    then obtain v where "map_of (h a) key = Some v"
      "extractAvatarSource h v (depth + 1) = Some s"
      by (auto split: option.splits)
    with "1.IH" [OF g JObject] show ?thesis by blast
  qed (use "1.prems" g in simp_all)
qed

lemma base64_not_whitespace: "is_base64_char c \<Longrightarrow> \<not> is_whitespace c"
  by (auto simp add: is_base64_char_def is_whitespace_def Let_def)

lemma dropWhile_id: "xs = [] \<or> \<not> P (hd xs) \<Longrightarrow> dropWhile P xs = xs"
  by (cases xs) auto

lemma trim_base64:
  assumes "list_all is_base64_char p"
  shows "trim p = p"
proof (cases "p = []")
  case True
  then show ?thesis by (simp add: trim_def)
next
  case False
  then have "hd p \<in> set p" "last p \<in> set p" by simp_all
  with assms have a: "\<not> is_whitespace (hd p)" and b: "\<not> is_whitespace (last p)"
    by (auto simp add: list_all_iff base64_not_whitespace)
  have 1: "dropWhile is_whitespace p = p" using a by (simp add: dropWhile_id)
  have "hd (rev p) = last p" using False by (simp add: hd_rev)
  then have 2: "dropWhile is_whitespace (rev p) = rev p" using b by (simp add: dropWhile_id)
  show ?thesis by (simp add: trim_def 1 2)
qed

lemma base64_no_prefix:
  assumes "list_all is_base64_char p" "CHR '':'' \<in> set q"
  shows "\<not> prefix q p"
proof
  assume "prefix q p"
  then have "set q \<subseteq> set p" by (rule set_mono_prefix)
  with assms have "is_base64_char CHR '':''" by (auto simp add: list_all_iff)
  then show False by (simp add: is_base64_char_def)
qed

lemma normalize_base64:
  assumes "100 < length p" "list_all is_base64_char p"
  shows "normalizeModelCandidate p = Some (''data:model/gltf-binary;base64,'' @ p)"
proof -
  have t: "trim p = p" using assms(2) by (rule trim_base64)
  have ne: "p \<noteq> []" using assms(1) by auto
  have sp: "CHR '' '' \<notin> set p"
  proof
    assume "CHR '' '' \<in> set p"
    with assms(2) have "is_base64_char CHR '' ''" by (auto simp add: list_all_iff)
    then show False by (simp add: is_base64_char_def)
  qed
  have n1: "\<not> prefix ''http://'' p" using assms(2) by (rule base64_no_prefix) simp
  have n2: "\<not> prefix ''https://'' p" using assms(2) by (rule base64_no_prefix) simp
  have n3: "\<not> prefix ''data:'' p" using assms(2) by (rule base64_no_prefix) simp
  show ?thesis
    using assms ne sp n1 n2 n3
    by (simp add: normalizeModelCandidate_def t startsWith_def BASE64_MODEL_PATTERN_def)
qed

lemma extractAvatarSource_total: "extractAvatarSource_dom (h, payload, depth)"
proof -
  have "All extractAvatarSource_dom"
    by (rule "extractAvatarSource.termination"
          [of "measure (\<lambda>(h, payload, depth). MAX_NESTING_DEPTH + 1 - depth)"]) auto
  then show ?thesis by blast
qed

text \<open>
  C10. \<^verbatim>\<open>extractAvatarSource\<close> terminates on every value, also on cyclic objects: each
  recursive call is one level deeper and a call deeper than \<^verbatim>\<open>MAX_NESTING_DEPTH = 4\<close> returns
  null, so the call relation of the function is well-founded at every input. Its result is null
  or a non-empty string that starts with \<^verbatim>\<open>http://\<close>, \<^verbatim>\<open>https://\<close> or \<^verbatim>\<open>data:\<close> and is not a
  \<^verbatim>\<open>data:image/\<close> URL (in any letter case). A bare base64 payload of more than 100
  characters is returned as \<^verbatim>\<open>data:model/gltf-binary;base64,\<close> followed by the payload.
\<close>

theorem C10_extractAvatarSource:
  "extractAvatarSource_dom (h, payload, depth)
   \<and> (case extractAvatarSource h payload depth of
      None \<Rightarrow> True
    | Some s \<Rightarrow> (prefix ''http://'' s \<or> prefix ''https://'' s \<or> prefix ''data:'' s)
                \<and> \<not> prefix ''data:image/'' s \<and> \<not> is_data_image s)
   \<and> (MAX_NESTING_DEPTH < depth \<longrightarrow> extractAvatarSource h payload depth = None)
   \<and> (100 < length p \<and> list_all is_base64_char p \<and> depth \<le> MAX_NESTING_DEPTH \<longrightarrow>
        extractAvatarSource h (JString p) depth = Some (''data:model/gltf-binary;base64,'' @ p))"
proof -
  have a: "case extractAvatarSource h payload depth of
      None \<Rightarrow> True
    | Some s \<Rightarrow> (prefix ''http://'' s \<or> prefix ''https://'' s \<or> prefix ''data:'' s)
                \<and> \<not> prefix ''data:image/'' s \<and> \<not> is_data_image s"
    using extract_shape [of h payload depth] data_image_prefix
    by (auto split: option.splits)
  have b: "MAX_NESTING_DEPTH < depth \<longrightarrow> extractAvatarSource h payload depth = None"
    by simp
  have c: "100 < length p \<and> list_all is_base64_char p \<and> depth \<le> MAX_NESTING_DEPTH \<longrightarrow>
        extractAvatarSource h (JString p) depth = Some (''data:model/gltf-binary;base64,'' @ p)"
  proof (intro impI, elim conjE)
    assume h: "100 < length p" "list_all is_base64_char p" "depth \<le> MAX_NESTING_DEPTH"
    from h(1) have "p \<noteq> []" by auto
    with h(3) show "extractAvatarSource h (JString p) depth
        = Some (''data:model/gltf-binary;base64,'' @ p)"
      by (simp add: normalize_base64 [OF h(1,2)])
  qed
  from extractAvatarSource_total [of h payload depth] a b c show ?thesis by blast
qed

theorem C10_extractAvatarSource_witness:
  "extractAvatarSource (\<lambda>a. [(''value'', JObject a)]) (JObject 0) 0 = None
   \<and> extractAvatarSource (\<lambda>a. []) (JString (replicate 101 CHR ''A'')) 0
       = Some (''data:model/gltf-binary;base64,'' @ replicate 101 CHR ''A'')
   \<and> extractAvatarSource (\<lambda>a. []) (JString ''data:image/png;base64,abc123'') 0 = None
   \<and> extractAvatarSource
        (\<lambda>a. if a = 0 then [(''source'', JObject 1)]
              else [(''glbUrl'', JString ''https://example.com/model.glb'')])
        (JObject 0) 0 = Some ''https://example.com/model.glb''"
proof -
  have cyc: "extractAvatarSource (\<lambda>a. [(''value'', JObject a)]) (JObject 0) 0 = None"
    by code_simp
  have img: "extractAvatarSource (\<lambda>a. []) (JString ''data:image/png;base64,abc123'') 0 = None"
    by code_simp
  have nest: "extractAvatarSource
        (\<lambda>a. if a = 0 then [(''source'', JObject 1)]
              else [(''glbUrl'', JString ''https://example.com/model.glb'')])
        (JObject 0) 0 = Some ''https://example.com/model.glb''"
    by code_simp
  have h1: "100 < length (replicate 101 CHR ''A'')" by simp
  have h2: "list_all is_base64_char (replicate 101 CHR ''A'')"
    by (simp add: list_all_iff is_base64_char_def)
  have h3: "(0::nat) \<le> MAX_NESTING_DEPTH" by simp
  from C10_extractAvatarSource [of "\<lambda>a. []" "JNull" 0 "replicate 101 CHR ''A''"] h1 h2 h3
  have "extractAvatarSource (\<lambda>a. []) (JString (replicate 101 CHR ''A'')) 0
       = Some (''data:model/gltf-binary;base64,'' @ replicate 101 CHR ''A'')"
    by blast
  with cyc img nest show ?thesis by blast
qed

section \<open>Claims about peer sessions\<close>









end
